theory Spec2Isabelle
  imports Complex_Main "HOL-Library.AList"
begin

section \<open>The hass-proxy authorization model\<close>

text \<open>
  A shallow embedding of \<^verbatim>\<open>custom_components/hass_proxy/proxy.py\<close>: the service
  handlers \<^verbatim>\<open>create_proxied_url\<close> and \<^verbatim>\<open>delete_proxied_url\<close>, and the method
  \<^verbatim>\<open>HAProxyView._get_proxied_url\<close> with its SSL helpers.

  The code calls into libraries and into the Python runtime. What it calls is not part
  of it, and is a parameter of the model, with every way the call can end:
  \<^item> \<^verbatim>\<open>urlmatch.urlmatch(pattern, url, path_required=False)\<close> is the parameter
    \<open>urlmatch\<close>. It gives \<open>Some\<close> truth value when the library returns, and \<open>None\<close>
    when the library raises \<^verbatim>\<open>BadMatchPattern\<close> on a pattern it cannot parse. The code
    has no handler for that exception, so it ends the request.
  \<^item> \<^verbatim>\<open>urllib.parse.unquote\<close> is the parameter \<open>unquote\<close>.
  \<^item> The sum \<^verbatim>\<open>time.time() + ttl\<close> of a double and an integer is the parameter
    \<open>float_add\<close>. Python converts the integer to a double and adds in double
    precision: \<open>float_add now ttl\<close> is \<open>Some\<close> of the double that results, which is
    the exact sum rounded, and \<open>None\<close> when the conversion raises
    \<^verbatim>\<open>OverflowError\<close> because the integer is beyond the range of the doubles.

  The wall clock \<^verbatim>\<open>time.time()\<close> is the argument \<open>now\<close> of an operation. The code
  reads the clock anew at each comparison of one request; the model takes these
  readings to be one instant. Doubles are read as the real numbers they stand for,
  which is what the comparison with the clock and the test against zero need;
  infinities and NaN are no values of the model (the clock never gives them, and a sum
  reaches them only for a clock reading beyond \<open>2 ^ 970\<close>). The string
  \<^verbatim>\<open>str(uuid.uuid4())\<close> is the argument \<open>uuid4\<close> of the create handler. The config
  entry that \<^verbatim>\<open>_get_config_entry\<close> looks up is taken to exist: its options and its
  dictionary of dynamic URLs are arguments.
\<close>

subsection \<open>Data\<close>

type_synonym time = real

text \<open>
  The dataclass \<^verbatim>\<open>DynamicProxiedURL\<close> of \<^verbatim>\<open>data.py\<close>, with the fields the constructor
  call in \<^verbatim>\<open>create_proxied_url\<close> gives it. \<open>ssl_ciphers\<close> may be Python's \<^verbatim>\<open>None\<close>
  (the service schema admits it), \<open>open_limit\<close> is a Python integer, \<open>expiration\<close> is
  the integer \<^verbatim>\<open>0\<close> or a double.
\<close>

record DynamicProxiedURL =
  url_pattern :: string
  ssl_verification :: bool
  ssl_ciphers :: "string option"
  open_limit :: int
  expiration :: time

text \<open>
  \<^verbatim>\<open>dynamic_proxied_urls\<close> is a Python dictionary from URL ids to entries. A Python
  dictionary iterates in insertion order, and the scan of \<^verbatim>\<open>_get_proxied_url\<close>
  depends on that order, so the registry is an association list: assignment
  \<^verbatim>\<open>d[k] = v\<close> is \<^const>\<open>AList.update\<close> (the value is replaced in place when the key
  is present, the pair is appended otherwise), \<^verbatim>\<open>del d[k]\<close> is \<^const>\<open>AList.delete\<close>,
  and \<^verbatim>\<open>k in d\<close> is membership in the list of keys. The keys of a dictionary are
  distinct: \<open>distinct (map fst regs)\<close>.
\<close>

type_synonym registry = "(string \<times> DynamicProxiedURL) list"

text \<open>
  The cipher list handed to Home Assistant's context constructors: either the
  constant \<^verbatim>\<open>SSLCipherList.PYTHON_DEFAULT\<close> or the value of the proxy's option, passed
  as it is. The two constructors \<^verbatim>\<open>client_context\<close> and
  \<^verbatim>\<open>client_context_no_verify\<close> of \<^verbatim>\<open>homeassistant.util.ssl\<close> are kept symbolic.
\<close>

datatype SSLCipherList = PYTHON_DEFAULT | Verbatim "string option"

datatype ssl_context = client_context SSLCipherList | client_context_no_verify SSLCipherList

record ProxiedURL =
  url :: string
  ssl_context :: ssl_context

text \<open>
  The two errors with which \<^verbatim>\<open>_get_proxied_url\<close> denies a request, and the
  exceptions that leave it: a denial, or the matcher's \<^verbatim>\<open>BadMatchPattern\<close>.
\<close>

datatype request_error = HASSProxyLibNotFoundRequestError | HASSProxyLibExpiredError

datatype request_exception = Denied request_error | BadMatchPattern

text \<open>
  The exceptions that leave the service handlers: \<^verbatim>\<open>ServiceValidationError\<close> with its
  translation key and the placeholder \<^verbatim>\<open>url_id\<close>, raised by the delete handler, and
  the \<^verbatim>\<open>OverflowError\<close> of the sum in the create handler.
\<close>

datatype service_error = ServiceValidationError string string | OverflowError

text \<open>
  The options of the config entry, as \<^verbatim>\<open>_get_proxied_url\<close> reads them with
  \<^verbatim>\<open>options.get\<close>: \<open>None\<close> is an absent key.
\<close>

record options =
  opt_url_patterns :: "string list option"
  opt_ssl_ciphers :: "string option"
  opt_ssl_verification :: "bool option"

text \<open>
  The data of a call of the create service, after \<^verbatim>\<open>CREATE_PROXIED_URL_SCHEMA\<close> has
  filled in the defaults; \<^verbatim>\<open>url_id\<close> is optional and has no default.
\<close>

record create_call =
  cd_url_pattern :: string
  cd_url_id :: "string option"
  cd_ssl_verification :: bool
  cd_ssl_ciphers :: "string option"
  cd_open_limit :: int
  cd_time_to_live :: int

text \<open>
  The query of a request is a multi-dictionary of strings; \<^verbatim>\<open>request.query["url"]\<close>
  is the first value stored under the key.
\<close>

type_synonym query = "(string \<times> string) list"

subsection \<open>SSL contexts\<close>

text \<open>
  Modelled from the spec: the constant \<^verbatim>\<open>CONF_SSL_CIPHERS_DEFAULT\<close> of
  \<^verbatim>\<open>const.py\<close>, which is not among the sources; the specification names the cipher
  profiles \<^verbatim>\<open>insecure\<close>, \<^verbatim>\<open>modern\<close>, \<^verbatim>\<open>intermediate\<close> and \<^verbatim>\<open>default\<close>.
\<close>

definition CONF_SSL_CIPHERS_DEFAULT :: string where
  "CONF_SSL_CIPHERS_DEFAULT = ''default''"

definition proxy_ssl_cipher_to_ha_ssl_cipher :: "string option \<Rightarrow> SSLCipherList" where
  "proxy_ssl_cipher_to_ha_ssl_cipher ciphers =
     (if ciphers = Some CONF_SSL_CIPHERS_DEFAULT then PYTHON_DEFAULT else Verbatim ciphers)"

definition get_ssl_context :: "string option \<Rightarrow> ssl_context" where
  "get_ssl_context ciphers = client_context (proxy_ssl_cipher_to_ha_ssl_cipher ciphers)"

definition get_ssl_context_no_verify :: "string option \<Rightarrow> ssl_context" where
  "get_ssl_context_no_verify ciphers =
     client_context_no_verify (proxy_ssl_cipher_to_ha_ssl_cipher ciphers)"

subsection \<open>The service handlers\<close>

text \<open>
  \<^verbatim>\<open>call.data.get("url_id") or str(uuid.uuid4())\<close>: an absent id and the empty string
  are both false in Python, and both give the generated id. The code does not look
  whether the generated id is a key of the dictionary already.
\<close>

definition create_url_id :: "create_call \<Rightarrow> string \<Rightarrow> string" where
  "create_url_id c uuid4 =
     (case cd_url_id c of
        None \<Rightarrow> uuid4
      | Some i \<Rightarrow> if i = [] then uuid4 else i)"

text \<open>
  The constructor call of \<^verbatim>\<open>create_proxied_url\<close>, with
  \<^verbatim>\<open>expiration=time.time() + ttl if ttl else 0\<close>: the sum is evaluated only for a
  \<^verbatim>\<open>ttl\<close> that is not zero, and when it raises no entry is made.
\<close>

definition create_entry ::
  "(time \<Rightarrow> int \<Rightarrow> time option) \<Rightarrow> create_call \<Rightarrow> time \<Rightarrow> DynamicProxiedURL option" where
  "create_entry float_add c now =
     (if cd_time_to_live c \<noteq> 0 then
        (case float_add now (cd_time_to_live c) of
           None \<Rightarrow> None
         | Some s \<Rightarrow>
             Some \<lparr> url_pattern = cd_url_pattern c,
                    ssl_verification = cd_ssl_verification c,
                    ssl_ciphers = cd_ssl_ciphers c,
                    open_limit = cd_open_limit c,
                    expiration = s \<rparr>)
      else
        Some \<lparr> url_pattern = cd_url_pattern c,
               ssl_verification = cd_ssl_verification c,
               ssl_ciphers = cd_ssl_ciphers c,
               open_limit = cd_open_limit c,
               expiration = 0 \<rparr>)"

text \<open>
  The handler: the right-hand side of the assignment is evaluated first, so an
  \<^verbatim>\<open>OverflowError\<close> leaves the dictionary as it was.
\<close>

definition create_proxied_url ::
  "(time \<Rightarrow> int \<Rightarrow> time option) \<Rightarrow> create_call \<Rightarrow> string \<Rightarrow> time \<Rightarrow> registry
     \<Rightarrow> (service_error + unit) \<times> registry" where
  "create_proxied_url float_add c uuid4 now regs =
     (case create_entry float_add c now of
        None \<Rightarrow> (Inl OverflowError, regs)
      | Some entry \<Rightarrow> (Inr (), AList.update (create_url_id c uuid4) entry regs))"

definition delete_proxied_url :: "string \<Rightarrow> registry \<Rightarrow> (service_error + unit) \<times> registry" where
  "delete_proxied_url url_id regs =
     (if url_id \<notin> set (map fst regs)
      then (Inl (ServiceValidationError ''url_id_not_found'' url_id), regs)
      else (Inr (), AList.delete url_id regs))"

subsection \<open>The authorization decision\<close>

text \<open>
  The first loop of \<^verbatim>\<open>_get_proxied_url\<close>, over \<^verbatim>\<open>proxied_urls.items()\<close>. It leaves
  through \<^verbatim>\<open>return\<close> at the first entry that matches and has not expired, through
  the matcher's exception at the first pattern the matcher cannot parse, or it runs to
  the end with the flag \<^verbatim>\<open>has_expired_match\<close>.
\<close>

datatype scan_result = Authorized string DynamicProxiedURL | Exhausted bool | Raised

definition is_expired :: "time \<Rightarrow> DynamicProxiedURL \<Rightarrow> bool" where
  "is_expired now p \<longleftrightarrow> expiration p \<noteq> 0 \<and> expiration p < now"

fun scan_dynamic ::
  "(string \<Rightarrow> string \<Rightarrow> bool option) \<Rightarrow> time \<Rightarrow> string \<Rightarrow> registry \<Rightarrow> bool \<Rightarrow> scan_result" where
  "scan_dynamic urlmatch now url_to_proxy [] has_expired_match = Exhausted has_expired_match"
| "scan_dynamic urlmatch now url_to_proxy ((url_id, proxied_url) # rest) has_expired_match =
     (case urlmatch (url_pattern proxied_url) url_to_proxy of
        None \<Rightarrow> Raised
      | Some matched \<Rightarrow>
          (if matched then
             (if is_expired now proxied_url
              then scan_dynamic urlmatch now url_to_proxy rest True
              else Authorized url_id proxied_url)
           else scan_dynamic urlmatch now url_to_proxy rest has_expired_match))"

text \<open>
  What the loop body does to the dictionary before it returns: the entry's
  \<open>open_limit\<close>, when it is not zero, is decremented in place, and the entry is deleted
  when the result is zero.
\<close>

definition consume :: "string \<Rightarrow> DynamicProxiedURL \<Rightarrow> registry \<Rightarrow> registry" where
  "consume url_id proxied_url regs =
     (if open_limit proxied_url \<noteq> 0 then
        (let regs' = AList.update url_id
                       (proxied_url\<lparr>open_limit := open_limit proxied_url - 1\<rparr>) regs
         in if open_limit proxied_url - 1 = 0 then AList.delete url_id regs' else regs')
      else regs)"

text \<open>
  The second loop, over the option \<^verbatim>\<open>url_patterns\<close>: \<open>Some\<close> of whether a static
  pattern matches, or \<open>None\<close> when the matcher raises on a pattern before one
  matches. The context returned does not depend on which pattern matched.
\<close>

fun scan_static ::
  "(string \<Rightarrow> string \<Rightarrow> bool option) \<Rightarrow> string \<Rightarrow> string list \<Rightarrow> bool option" where
  "scan_static urlmatch url_to_proxy [] = Some False"
| "scan_static urlmatch url_to_proxy (pattern # rest) =
     (case urlmatch pattern url_to_proxy of
        None \<Rightarrow> None
      | Some matched \<Rightarrow>
          (if matched then Some True else scan_static urlmatch url_to_proxy rest))"

definition context_for :: "bool \<Rightarrow> string option \<Rightarrow> ssl_context" where
  "context_for verification ciphers =
     (if verification then get_ssl_context ciphers else get_ssl_context_no_verify ciphers)"

text \<open>
  \<^verbatim>\<open>options.get("url_patterns", [])\<close> and \<^verbatim>\<open>options.get(CONF_SSL_VERIFICATION, True)\<close>.
\<close>

definition static_patterns :: "options \<Rightarrow> string list" where
  "static_patterns opts = (case opt_url_patterns opts of None \<Rightarrow> [] | Some ps \<Rightarrow> ps)"

definition static_verification :: "options \<Rightarrow> bool" where
  "static_verification opts = (case opt_ssl_verification opts of None \<Rightarrow> True | Some v \<Rightarrow> v)"

definition get_proxied_url ::
  "(string \<Rightarrow> string \<Rightarrow> bool option) \<Rightarrow> (string \<Rightarrow> string) \<Rightarrow> options \<Rightarrow> time \<Rightarrow> query \<Rightarrow> registry
     \<Rightarrow> (request_exception + ProxiedURL) \<times> registry" where
  "get_proxied_url urlmatch unquote opts now q regs =
     (case map_of q ''url'' of
        None \<Rightarrow> (Inl (Denied HASSProxyLibNotFoundRequestError), regs)
      | Some raw \<Rightarrow>
          (let url_to_proxy = unquote raw in
           case scan_dynamic urlmatch now url_to_proxy regs False of
             Raised \<Rightarrow> (Inl BadMatchPattern, regs)
           | Authorized url_id proxied_url \<Rightarrow>
               (Inr \<lparr> url = url_to_proxy,
                      ssl_context = context_for (ssl_verification proxied_url)
                                                (ssl_ciphers proxied_url) \<rparr>,
                consume url_id proxied_url regs)
           | Exhausted has_expired_match \<Rightarrow>
               (case scan_static urlmatch url_to_proxy (static_patterns opts) of
                  None \<Rightarrow> (Inl BadMatchPattern, regs)
                | Some matched \<Rightarrow>
                    (if matched
                     then (Inr \<lparr> url = url_to_proxy,
                                 ssl_context = context_for (static_verification opts)
                                                           (opt_ssl_ciphers opts) \<rparr>,
                           regs)
                     else if has_expired_match
                     then (Inl (Denied HASSProxyLibExpiredError), regs)
                     else (Inl (Denied HASSProxyLibNotFoundRequestError), regs)))))"

subsection \<open>Sequences of operations\<close>

text \<open>
  The registry starts empty (\<^verbatim>\<open>async_setup_entry\<close> stores \<^verbatim>\<open>{}\<close>) and is changed by
  the two service handlers and by requests only. A handler or a request that raises
  leaves the registry as the functions above return it.
\<close>

datatype operation =
    Create create_call string time
  | Delete string
  | Request query time

fun apply_operation ::
  "(string \<Rightarrow> string \<Rightarrow> bool option) \<Rightarrow> (string \<Rightarrow> string) \<Rightarrow> (time \<Rightarrow> int \<Rightarrow> time option) \<Rightarrow> options
     \<Rightarrow> registry \<Rightarrow> operation \<Rightarrow> registry" where
  "apply_operation urlmatch unquote float_add opts regs (Create c uuid4 now) =
     snd (create_proxied_url float_add c uuid4 now regs)"
| "apply_operation urlmatch unquote float_add opts regs (Delete url_id) =
     snd (delete_proxied_url url_id regs)"
| "apply_operation urlmatch unquote float_add opts regs (Request q now) =
     snd (get_proxied_url urlmatch unquote opts now q regs)"

definition run_from ::
  "(string \<Rightarrow> string \<Rightarrow> bool option) \<Rightarrow> (string \<Rightarrow> string) \<Rightarrow> (time \<Rightarrow> int \<Rightarrow> time option) \<Rightarrow> options
     \<Rightarrow> registry \<Rightarrow> operation list \<Rightarrow> registry" where
  "run_from urlmatch unquote float_add opts regs ops =
     foldl (apply_operation urlmatch unquote float_add opts) regs ops"

definition run ::
  "(string \<Rightarrow> string \<Rightarrow> bool option) \<Rightarrow> (string \<Rightarrow> string) \<Rightarrow> (time \<Rightarrow> int \<Rightarrow> time option) \<Rightarrow> options
     \<Rightarrow> operation list \<Rightarrow> registry" where
  "run urlmatch unquote float_add opts ops = run_from urlmatch unquote float_add opts [] ops"

fun is_request :: "operation \<Rightarrow> bool" where
  "is_request (Request q now) = True"
| "is_request _ = False"

subsection \<open>The vocabulary of the specification\<close>

text \<open>
  A dynamic entry authorizes a URL at a time when the matcher finds that its pattern
  matches and it has not expired; it is an expired match when its pattern matches and
  it has expired.
\<close>

definition authorizes ::
  "(string \<Rightarrow> string \<Rightarrow> bool option) \<Rightarrow> time \<Rightarrow> string \<Rightarrow> string \<times> DynamicProxiedURL \<Rightarrow> bool" where
  "authorizes urlmatch now u e \<longleftrightarrow>
     urlmatch (url_pattern (snd e)) u = Some True \<and> \<not> is_expired now (snd e)"

definition expired_match ::
  "(string \<Rightarrow> string \<Rightarrow> bool option) \<Rightarrow> time \<Rightarrow> string \<Rightarrow> string \<times> DynamicProxiedURL \<Rightarrow> bool" where
  "expired_match urlmatch now u e \<longleftrightarrow>
     urlmatch (url_pattern (snd e)) u = Some True \<and> is_expired now (snd e)"


text \<open>
  The invariant as the specification words it: no entry of the registry has
  \<open>open_limit\<close> equal to 0.
\<close>

definition no_zero_open_limit :: "registry \<Rightarrow> bool" where
  "no_zero_open_limit regs \<longleftrightarrow> (\<forall>e \<in> set regs. open_limit (snd e) \<noteq> 0)"

text \<open>
  The entry \<open>p\<close> under the key \<open>k\<close> goes back to a create operation of the sequence:
  the operation stored an entry under \<open>k\<close> that differs from \<open>p\<close> at most in
  \<open>open_limit\<close>, and when \<open>p\<close> has \<open>open_limit\<close> 0 the operation asked for 0.
\<close>

definition created_by ::
  "(time \<Rightarrow> int \<Rightarrow> time option) \<Rightarrow> operation list \<Rightarrow> string \<Rightarrow> DynamicProxiedURL \<Rightarrow> bool" where
  "created_by float_add ops k p \<longleftrightarrow>
     (\<exists>c uuid4 t. Create c uuid4 t \<in> set ops \<and> create_url_id c uuid4 = k
        \<and> create_entry float_add c t = Some (p\<lparr>open_limit := cd_open_limit c\<rparr>)
        \<and> (open_limit p = 0 \<longrightarrow> cd_open_limit c = 0))"

section \<open>Properties of the scans and of the dictionary operations\<close>

lemma scan_static_no_raise:
  assumes "\<forall>pat \<in> set ps. urlmatch pat u \<noteq> None"
  shows "scan_static urlmatch u ps = Some (\<exists>pat \<in> set ps. urlmatch pat u = Some True)"
  using assms by (induction ps) (auto split: option.splits)

lemma scan_static_first:
  assumes "\<forall>x \<in> set pre. urlmatch x u = Some False" and "urlmatch pat u = Some True"
  shows "scan_static urlmatch u (pre @ pat # post) = Some True"
  using assms by (induction pre) auto

lemma scan_static_raise:
  assumes "\<forall>x \<in> set pre. urlmatch x u = Some False" and "urlmatch pat u = None"
  shows "scan_static urlmatch u (pre @ pat # post) = None"
  using assms by (induction pre) auto

lemma scan_static_none:
  assumes "\<forall>pat \<in> set ps. urlmatch pat u = Some False"
  shows "scan_static urlmatch u ps = Some False"
  using assms by (induction ps) auto

lemma scan_dynamic_Authorized:
  assumes "scan_dynamic urlmatch now u regs b = Authorized k p"
  shows "(k, p) \<in> set regs \<and> authorizes urlmatch now u (k, p)"
  using assms
proof (induction regs arbitrary: b)
  case Nil
  then show ?case by simp
next
  case (Cons e regs)
  obtain k' p' where e: "e = (k', p')" by (cases e)
  show ?case
  proof (cases "authorizes urlmatch now u e")
    case True
    with Cons.prems e have "k = k'" "p = p'" by (simp_all add: authorizes_def)
    with True e show ?thesis by simp
  next
    case False
    with Cons.prems e obtain b' where "scan_dynamic urlmatch now u regs b' = Authorized k p"
      by (auto simp: authorizes_def split: option.splits if_splits)
    from Cons.IH [OF this] show ?thesis by simp
  qed
qed

lemma scan_dynamic_first:
  assumes "\<forall>e \<in> set pre. urlmatch (url_pattern (snd e)) u \<noteq> None \<and> \<not> authorizes urlmatch now u e"
    and "authorizes urlmatch now u (k, p)"
  shows "scan_dynamic urlmatch now u (pre @ (k, p) # post) b = Authorized k p"
  using assms by (induction pre arbitrary: b) (auto simp: authorizes_def split: option.splits)

lemma scan_dynamic_raise:
  assumes "\<forall>e \<in> set pre. urlmatch (url_pattern (snd e)) u \<noteq> None \<and> \<not> authorizes urlmatch now u e"
    and "urlmatch (url_pattern p) u = None"
  shows "scan_dynamic urlmatch now u (pre @ (k, p) # post) b = Raised"
  using assms by (induction pre arbitrary: b) (auto simp: authorizes_def split: option.splits)

lemma scan_dynamic_none:
  assumes "\<forall>e \<in> set regs. urlmatch (url_pattern (snd e)) u \<noteq> None \<and> \<not> authorizes urlmatch now u e"
  shows "scan_dynamic urlmatch now u regs b =
           Exhausted (b \<or> (\<exists>e \<in> set regs. expired_match urlmatch now u e))"
  using assms
  by (induction regs arbitrary: b)
     (auto simp: authorizes_def expired_match_def split: option.splits)

lemma scan_dynamic_some:
  assumes "\<forall>e \<in> set regs. urlmatch (url_pattern (snd e)) u \<noteq> None"
    and "\<exists>e \<in> set regs. authorizes urlmatch now u e"
  shows "\<exists>k p. scan_dynamic urlmatch now u regs b = Authorized k p"
  using assms
proof (induction regs arbitrary: b)
  case Nil
  then show ?case by simp
next
  case (Cons e regs)
  obtain k' p' where e: "e = (k', p')" by (cases e)
  show ?case
  proof (cases "authorizes urlmatch now u e")
    case True
    with e show ?thesis by (simp add: authorizes_def)
  next
    case False
    with Cons.prems have rest: "\<forall>e \<in> set regs. urlmatch (url_pattern (snd e)) u \<noteq> None"
      "\<exists>e \<in> set regs. authorizes urlmatch now u e"
      by auto
    from Cons.prems(1) e obtain m where m: "urlmatch (url_pattern p') u = Some m" by auto
    from False e m have "scan_dynamic urlmatch now u (e # regs) b =
        scan_dynamic urlmatch now u regs (if m then True else b)"
      by (auto simp: authorizes_def)
    with Cons.IH [OF rest] show ?thesis by simp
  qed
qed

lemma scan_dynamic_Exhausted:
  assumes "scan_dynamic urlmatch now u regs b = Exhausted b'"
  shows "b' = (b \<or> (\<exists>e \<in> set regs. expired_match urlmatch now u e))"
  using assms
proof (induction regs arbitrary: b)
  case Nil
  then show ?case by simp
next
  case (Cons x xs)
  obtain kx px where x: "x = (kx, px)" by (cases x)
  from Cons.prems x obtain mx where mx: "urlmatch (url_pattern px) u = Some mx"
    by (auto split: option.splits)
  show ?case
  proof (cases "mx")
    case True
    with Cons.prems x mx have e: "is_expired now px"
      and r: "scan_dynamic urlmatch now u xs True = Exhausted b'"
      by (auto split: if_splits)
    from Cons.IH [OF r] have "b'" by simp
    moreover from True e x mx have "expired_match urlmatch now u x"
      by (simp add: expired_match_def)
    ultimately show ?thesis by simp
  next
    case False
    with Cons.prems x mx have r: "scan_dynamic urlmatch now u xs b = Exhausted b'"
      by simp
    from False x mx have "\<not> expired_match urlmatch now u x"
      by (simp add: expired_match_def)
    with Cons.IH [OF r] show ?thesis by simp
  qed
qed

lemma update_at_key:
  assumes "distinct (map fst (pre @ (k, p) # post))"
  shows "AList.update k v (pre @ (k, p) # post) = pre @ (k, v) # post"
  using assms by (induction pre) auto

lemma delete_at_key:
  assumes "distinct (map fst (pre @ (k, p) # post))"
  shows "AList.delete k (pre @ (k, v) # post) = pre @ post"
proof -
  from assms have "\<forall>e \<in> set pre \<union> set post. k \<noteq> fst e" by auto
  then have "filter (\<lambda>e. k \<noteq> fst e) pre = pre" "filter (\<lambda>e. k \<noteq> fst e) post = post"
    by (simp_all add: filter_id_conv)
  then show ?thesis
    by (simp add: AList.delete_eq case_prod_unfold)
qed

lemma consume_at_key:
  assumes "distinct (map fst (pre @ (k, p) # post))"
  shows "consume k p (pre @ (k, p) # post) =
           (if open_limit p = 0 then pre @ (k, p) # post
            else if open_limit p = 1 then pre @ post
            else pre @ (k, p\<lparr>open_limit := open_limit p - 1\<rparr>) # post)"
  by (simp add: consume_def Let_def update_at_key[OF assms] delete_at_key[OF assms])

lemma map_of_at_key:
  assumes "distinct (map fst regs)" and "(k, p) \<in> set regs"
  shows "map_of regs k = Some p"
  using assms by simp

lemma map_of_consume:
  "map_of (consume k p regs) k' =
     (if k' = k \<and> open_limit p \<noteq> 0
      then (if open_limit p = 1 then None else Some (p\<lparr>open_limit := open_limit p - 1\<rparr>))
      else map_of regs k')"
  by (simp add: consume_def Let_def update_conv' delete_conv')

lemma distinct_consume: "distinct (map fst regs) \<Longrightarrow> distinct (map fst (consume k p regs))"
  by (simp add: consume_def Let_def distinct_update distinct_delete)

lemma get_proxied_url_cases:
  "(\<exists>k p. (k, p) \<in> set regs
          \<and> snd (get_proxied_url urlmatch unquote opts now q regs) = consume k p regs
          \<and> (\<exists>raw. map_of q ''url'' = Some raw \<and> authorizes urlmatch now (unquote raw) (k, p)))
   \<or> snd (get_proxied_url urlmatch unquote opts now q regs) = regs"
proof (cases "map_of q ''url''")
  case None
  then show ?thesis by (simp add: get_proxied_url_def)
next
  case (Some raw)
  show ?thesis
  proof (cases "scan_dynamic urlmatch now (unquote raw) regs False")
    case (Authorized k p)
    from scan_dynamic_Authorized [OF this] Some Authorized show ?thesis
      by (auto simp: get_proxied_url_def Let_def)
  next
    case (Exhausted b)
    with Some show ?thesis
      by (simp add: get_proxied_url_def Let_def split: option.splits)
  next
    case Raised
    with Some show ?thesis by (simp add: get_proxied_url_def Let_def)
  qed
qed

lemma distinct_get_proxied_url:
  "distinct (map fst regs) \<Longrightarrow>
   distinct (map fst (snd (get_proxied_url urlmatch unquote opts now q regs)))"
  using get_proxied_url_cases [of regs urlmatch unquote opts now q]
  by (auto simp: distinct_consume simp del: distinct_map)

lemma distinct_apply_operation:
  "distinct (map fst regs) \<Longrightarrow>
   distinct (map fst (apply_operation urlmatch unquote float_add opts regs op))"
  by (cases op)
     (simp_all add: create_proxied_url_def delete_proxied_url_def distinct_update
        distinct_delete distinct_get_proxied_url split: option.splits)

lemma distinct_run_from:
  "distinct (map fst regs) \<Longrightarrow>
   distinct (map fst (run_from urlmatch unquote float_add opts regs ops))"
  unfolding run_from_def
  by (induction ops arbitrary: regs) (simp_all add: distinct_apply_operation)

lemma run_from_snoc:
  "run_from urlmatch unquote float_add opts regs (ops @ [op]) =
     apply_operation urlmatch unquote float_add opts
       (run_from urlmatch unquote float_add opts regs ops) op"
  by (simp add: run_from_def)

lemma distinct_run: "distinct (map fst (run urlmatch unquote float_add opts ops))"
  unfolding run_def by (rule distinct_run_from) simp

section \<open>The authorization decision\<close>

text \<open>
  The decision as the specification words it fails on a registry that holds a pattern
  the matcher cannot parse. Here the matcher raises on the empty pattern, as the
  library does, and compares the other patterns with the URL. The entry \<open>b\<close> matches
  the URL and has not expired, but the scan reaches the entry \<open>a\<close> first and the
  request ends with the matcher's exception.
\<close>

theorem get_proxied_url_decision_counterexample:
  "authorizes (\<lambda>pat u. if pat = [] then None else Some (pat = u)) 100 ''http://a/''
     (''b'', \<lparr>url_pattern = ''http://a/'', ssl_verification = True, ssl_ciphers = Some ''default'',
              open_limit = 1, expiration = 150\<rparr>)
   \<and> get_proxied_url (\<lambda>pat u. if pat = [] then None else Some (pat = u)) (\<lambda>s. s)
       \<lparr>opt_url_patterns = None, opt_ssl_ciphers = None, opt_ssl_verification = None\<rparr>
       100 [(''url'', ''http://a/'')]
       [(''a'', \<lparr>url_pattern = '''', ssl_verification = True, ssl_ciphers = Some ''default'',
                 open_limit = 1, expiration = 150\<rparr>),
        (''b'', \<lparr>url_pattern = ''http://a/'', ssl_verification = True,
                 ssl_ciphers = Some ''default'', open_limit = 1, expiration = 150\<rparr>)] =
     (Inl BadMatchPattern,
      [(''a'', \<lparr>url_pattern = '''', ssl_verification = True, ssl_ciphers = Some ''default'',
                 open_limit = 1, expiration = 150\<rparr>),
       (''b'', \<lparr>url_pattern = ''http://a/'', ssl_verification = True,
                 ssl_ciphers = Some ''default'', open_limit = 1, expiration = 150\<rparr>)])"
  by (simp add: authorizes_def is_expired_def get_proxied_url_def)

text \<open>
  Claim C1, amended. For a request whose query carries a URL, decoded to
  \<open>unquote raw\<close>, with \<open>ps\<close> the static patterns of the options. The patterns are
  examined in order, the dynamic entries first, until an entry authorizes or the
  matcher raises.
  \<^item> When the matcher raises on no pattern, and some dynamic entry authorizes the URL
    (its pattern matches and it has not expired) or some static pattern matches, the
    request is authorized for that URL.
  \<^item> The first dynamic entry in registry order that authorizes decides: the SSL
    context is built from its verification flag and cipher profile, and it is the
    entry consumed, whatever follows it and whatever the static patterns are.
  \<^item> The static patterns decide only when no dynamic entry authorizes, with the
    context of the config entry's options.
  \<^item> When nothing authorizes, the denial is \<open>HASSProxyLibExpiredError\<close> if some expired
    entry's pattern matched and \<open>HASSProxyLibNotFoundRequestError\<close> otherwise.
  \<^item> A pattern the matcher cannot parse, reached before anything authorizes, ends the
    request with \<open>BadMatchPattern\<close>, the registry unchanged.
\<close>

theorem get_proxied_url_decision:
  assumes "map_of q ''url'' = Some raw"
    and "ps = (case opt_url_patterns opts of None \<Rightarrow> [] | Some l \<Rightarrow> l)"
  shows
    "((\<forall>e \<in> set regs. urlmatch (url_pattern (snd e)) (unquote raw) \<noteq> None)
        \<and> (\<forall>pat \<in> set ps. urlmatch pat (unquote raw) \<noteq> None)
        \<and> ((\<exists>e \<in> set regs. authorizes urlmatch now (unquote raw) e)
             \<or> (\<exists>pat \<in> set ps. urlmatch pat (unquote raw) = Some True))
      \<longrightarrow> (\<exists>r. fst (get_proxied_url urlmatch unquote opts now q regs) = Inr r
                 \<and> url r = unquote raw))
     \<and> (\<forall>pre k p post.
           regs = pre @ (k, p) # post
           \<and> (\<forall>e \<in> set pre. urlmatch (url_pattern (snd e)) (unquote raw) \<noteq> None
                               \<and> \<not> authorizes urlmatch now (unquote raw) e)
           \<and> authorizes urlmatch now (unquote raw) (k, p)
         \<longrightarrow> get_proxied_url urlmatch unquote opts now q regs =
               (Inr \<lparr> url = unquote raw,
                      ssl_context =
                        (if ssl_verification p
                         then client_context (proxy_ssl_cipher_to_ha_ssl_cipher (ssl_ciphers p))
                         else client_context_no_verify
                                (proxy_ssl_cipher_to_ha_ssl_cipher (ssl_ciphers p))) \<rparr>,
                consume k p regs))
     \<and> (\<forall>spre pat spost.
           (\<forall>e \<in> set regs. urlmatch (url_pattern (snd e)) (unquote raw) \<noteq> None
                              \<and> \<not> authorizes urlmatch now (unquote raw) e)
           \<and> ps = spre @ pat # spost
           \<and> (\<forall>x \<in> set spre. urlmatch x (unquote raw) = Some False)
           \<and> urlmatch pat (unquote raw) = Some True
         \<longrightarrow> get_proxied_url urlmatch unquote opts now q regs =
               (Inr \<lparr> url = unquote raw,
                      ssl_context =
                        (case opt_ssl_verification opts of
                           None \<Rightarrow>
                             client_context (proxy_ssl_cipher_to_ha_ssl_cipher (opt_ssl_ciphers opts))
                         | Some v \<Rightarrow>
                             if v
                             then client_context
                                    (proxy_ssl_cipher_to_ha_ssl_cipher (opt_ssl_ciphers opts))
                             else client_context_no_verify
                                    (proxy_ssl_cipher_to_ha_ssl_cipher (opt_ssl_ciphers opts))) \<rparr>,
                regs))
     \<and> ((\<forall>e \<in> set regs. urlmatch (url_pattern (snd e)) (unquote raw) \<noteq> None
                            \<and> \<not> authorizes urlmatch now (unquote raw) e)
        \<and> (\<forall>pat \<in> set ps. urlmatch pat (unquote raw) = Some False)
      \<longrightarrow> get_proxied_url urlmatch unquote opts now q regs =
            (Inl (Denied (if \<exists>e \<in> set regs. expired_match urlmatch now (unquote raw) e
                          then HASSProxyLibExpiredError else HASSProxyLibNotFoundRequestError)),
             regs))
     \<and> (\<forall>pre k p post.
           regs = pre @ (k, p) # post
           \<and> (\<forall>e \<in> set pre. urlmatch (url_pattern (snd e)) (unquote raw) \<noteq> None
                               \<and> \<not> authorizes urlmatch now (unquote raw) e)
           \<and> urlmatch (url_pattern p) (unquote raw) = None
         \<longrightarrow> get_proxied_url urlmatch unquote opts now q regs = (Inl BadMatchPattern, regs))
     \<and> (\<forall>spre pat spost.
           (\<forall>e \<in> set regs. urlmatch (url_pattern (snd e)) (unquote raw) \<noteq> None
                              \<and> \<not> authorizes urlmatch now (unquote raw) e)
           \<and> ps = spre @ pat # spost
           \<and> (\<forall>x \<in> set spre. urlmatch x (unquote raw) = Some False)
           \<and> urlmatch pat (unquote raw) = None
         \<longrightarrow> get_proxied_url urlmatch unquote opts now q regs = (Inl BadMatchPattern, regs))"
proof -
  let ?u = "unquote raw"
  let ?r = "get_proxied_url urlmatch unquote opts now q regs"
  let ?skipped = "\<forall>e \<in> set regs. urlmatch (url_pattern (snd e)) ?u \<noteq> None
                              \<and> \<not> authorizes urlmatch now ?u e"
  have ps: "static_patterns opts = ps"
    by (simp add: static_patterns_def assms(2))
  have dyn: "?r = (Inr \<lparr> url = ?u,
                      ssl_context =
                        (if ssl_verification p
                         then client_context (proxy_ssl_cipher_to_ha_ssl_cipher (ssl_ciphers p))
                         else client_context_no_verify
                                (proxy_ssl_cipher_to_ha_ssl_cipher (ssl_ciphers p))) \<rparr>,
                consume k p regs)"
    if "scan_dynamic urlmatch now ?u regs False = Authorized k p" for k p
    using that assms(1)
    by (simp add: get_proxied_url_def Let_def context_for_def get_ssl_context_def
          get_ssl_context_no_verify_def)
  have stat: "?r = (case scan_static urlmatch ?u ps of
                      None \<Rightarrow> (Inl BadMatchPattern, regs)
                    | Some matched \<Rightarrow>
                        if matched
                        then (Inr \<lparr> url = ?u,
                                    ssl_context =
                                      (case opt_ssl_verification opts of
                                         None \<Rightarrow>
                                           client_context
                                             (proxy_ssl_cipher_to_ha_ssl_cipher (opt_ssl_ciphers opts))
                                       | Some v \<Rightarrow>
                                           if v
                                           then client_context
                                                  (proxy_ssl_cipher_to_ha_ssl_cipher
                                                     (opt_ssl_ciphers opts))
                                           else client_context_no_verify
                                                  (proxy_ssl_cipher_to_ha_ssl_cipher
                                                     (opt_ssl_ciphers opts))) \<rparr>,
                              regs)
                        else (Inl (Denied (if \<exists>e \<in> set regs. expired_match urlmatch now ?u e
                                           then HASSProxyLibExpiredError
                                           else HASSProxyLibNotFoundRequestError)),
                              regs))"
    if ?skipped
    using scan_dynamic_none [OF that, of False] assms(1) ps
    by (simp add: get_proxied_url_def Let_def context_for_def get_ssl_context_def
          get_ssl_context_no_verify_def static_verification_def
          split: option.splits)
  have a: "\<exists>r. fst ?r = Inr r \<and> url r = ?u"
    if h: "(\<forall>e \<in> set regs. urlmatch (url_pattern (snd e)) ?u \<noteq> None)
        \<and> (\<forall>pat \<in> set ps. urlmatch pat ?u \<noteq> None)
        \<and> ((\<exists>e \<in> set regs. authorizes urlmatch now ?u e)
             \<or> (\<exists>pat \<in> set ps. urlmatch pat ?u = Some True))"
  proof (cases "\<exists>e \<in> set regs. authorizes urlmatch now ?u e")
    case True
    with h obtain k p where "scan_dynamic urlmatch now ?u regs False = Authorized k p"
      using scan_dynamic_some [of regs urlmatch ?u now False] by blast
    from dyn [OF this] show ?thesis by simp
  next
    case False
    with h have s: ?skipped by blast
    from False h have "scan_static urlmatch ?u ps = Some True"
      using scan_static_no_raise [of ps urlmatch ?u] by auto
    with stat [OF s] show ?thesis by simp
  qed
  have b: "?r = (Inr \<lparr> url = ?u,
                      ssl_context =
                        (if ssl_verification p
                         then client_context (proxy_ssl_cipher_to_ha_ssl_cipher (ssl_ciphers p))
                         else client_context_no_verify
                                (proxy_ssl_cipher_to_ha_ssl_cipher (ssl_ciphers p))) \<rparr>,
                consume k p regs)"
    if "regs = pre @ (k, p) # post
           \<and> (\<forall>e \<in> set pre. urlmatch (url_pattern (snd e)) ?u \<noteq> None
                               \<and> \<not> authorizes urlmatch now ?u e)
           \<and> authorizes urlmatch now ?u (k, p)" for pre k p post
  proof -
    from that have "scan_dynamic urlmatch now ?u regs False = Authorized k p"
      by (simp add: scan_dynamic_first)
    then show ?thesis by (rule dyn)
  qed
  have c: "?r = (Inr \<lparr> url = ?u,
                      ssl_context =
                        (case opt_ssl_verification opts of
                           None \<Rightarrow>
                             client_context (proxy_ssl_cipher_to_ha_ssl_cipher (opt_ssl_ciphers opts))
                         | Some v \<Rightarrow>
                             if v
                             then client_context
                                    (proxy_ssl_cipher_to_ha_ssl_cipher (opt_ssl_ciphers opts))
                             else client_context_no_verify
                                    (proxy_ssl_cipher_to_ha_ssl_cipher (opt_ssl_ciphers opts))) \<rparr>,
                regs)"
    if "?skipped \<and> ps = spre @ pat # spost
           \<and> (\<forall>x \<in> set spre. urlmatch x ?u = Some False)
           \<and> urlmatch pat ?u = Some True" for spre pat spost
  proof -
    from that have "scan_static urlmatch ?u ps = Some True"
      by (simp add: scan_static_first)
    with stat that show ?thesis by simp
  qed
  have d: "?r = (Inl (Denied (if \<exists>e \<in> set regs. expired_match urlmatch now ?u e
                          then HASSProxyLibExpiredError else HASSProxyLibNotFoundRequestError)),
             regs)"
    if "?skipped \<and> (\<forall>pat \<in> set ps. urlmatch pat ?u = Some False)"
  proof -
    from that have "scan_static urlmatch ?u ps = Some False"
      by (simp add: scan_static_none)
    with stat that show ?thesis by simp
  qed
  have e: "?r = (Inl BadMatchPattern, regs)"
    if "regs = pre @ (k, p) # post
           \<and> (\<forall>e \<in> set pre. urlmatch (url_pattern (snd e)) ?u \<noteq> None
                               \<and> \<not> authorizes urlmatch now ?u e)
           \<and> urlmatch (url_pattern p) ?u = None" for pre k p post
  proof -
    from that have "scan_dynamic urlmatch now ?u regs False = Raised"
      by (simp add: scan_dynamic_raise)
    with assms(1) show ?thesis by (simp add: get_proxied_url_def Let_def)
  qed
  have f: "?r = (Inl BadMatchPattern, regs)"
    if "?skipped \<and> ps = spre @ pat # spost
           \<and> (\<forall>x \<in> set spre. urlmatch x ?u = Some False)
           \<and> urlmatch pat ?u = None" for spre pat spost
  proof -
    from that have "scan_static urlmatch ?u ps = None"
      by (simp add: scan_static_raise)
    with stat that show ?thesis by simp
  qed
  show ?thesis
    apply (intro conjI allI impI)
    subgoal by (rule a)
    subgoal by (rule b)
    subgoal by (rule c)
    subgoal by (rule d)
    subgoal by (rule e)
    subgoal by (rule f)
    done
qed

theorem get_proxied_url_decision_witness:
  "get_proxied_url (\<lambda>pat u. if pat = [] then None else Some (pat = u)) (\<lambda>s. s)
       \<lparr>opt_url_patterns = None, opt_ssl_ciphers = None, opt_ssl_verification = None\<rparr>
       100 [(''url'', ''http://a/'')]
       [(''a'', \<lparr>url_pattern = ''http://a/'', ssl_verification = True,
                 ssl_ciphers = Some ''default'', open_limit = 1, expiration = 50\<rparr>),
        (''b'', \<lparr>url_pattern = ''http://a/'', ssl_verification = False,
                 ssl_ciphers = Some ''modern'', open_limit = 1, expiration = 150\<rparr>)] =
     (Inr \<lparr>url = ''http://a/'',
           ssl_context = client_context_no_verify (Verbatim (Some ''modern''))\<rparr>,
      [(''a'', \<lparr>url_pattern = ''http://a/'', ssl_verification = True,
                 ssl_ciphers = Some ''default'', open_limit = 1, expiration = 50\<rparr>)])
   \<and> get_proxied_url (\<lambda>pat u. if pat = [] then None else Some (pat = u)) (\<lambda>s. s)
       \<lparr>opt_url_patterns = Some [''http://b/'', ''http://a/''],
          opt_ssl_ciphers = Some ''default'', opt_ssl_verification = None\<rparr>
       100 [(''url'', ''http://a/'')]
       [(''a'', \<lparr>url_pattern = ''http://a/'', ssl_verification = True,
                 ssl_ciphers = Some ''default'', open_limit = 1, expiration = 50\<rparr>)] =
     (Inr \<lparr>url = ''http://a/'', ssl_context = client_context PYTHON_DEFAULT\<rparr>,
      [(''a'', \<lparr>url_pattern = ''http://a/'', ssl_verification = True,
                 ssl_ciphers = Some ''default'', open_limit = 1, expiration = 50\<rparr>)])
   \<and> get_proxied_url (\<lambda>pat u. if pat = [] then None else Some (pat = u)) (\<lambda>s. s)
       \<lparr>opt_url_patterns = Some [''http://b/''],
          opt_ssl_ciphers = Some ''default'', opt_ssl_verification = None\<rparr>
       100 [(''url'', ''http://a/'')]
       [(''a'', \<lparr>url_pattern = ''http://a/'', ssl_verification = True,
                 ssl_ciphers = Some ''default'', open_limit = 1, expiration = 50\<rparr>)] =
     (Inl (Denied HASSProxyLibExpiredError),
      [(''a'', \<lparr>url_pattern = ''http://a/'', ssl_verification = True,
                 ssl_ciphers = Some ''default'', open_limit = 1, expiration = 50\<rparr>)])
   \<and> get_proxied_url (\<lambda>pat u. if pat = [] then None else Some (pat = u)) (\<lambda>s. s)
       \<lparr>opt_url_patterns = Some ['''', ''http://a/''],
          opt_ssl_ciphers = Some ''default'', opt_ssl_verification = None\<rparr>
       100 [(''url'', ''http://a/'')]
       [(''a'', \<lparr>url_pattern = ''http://a/'', ssl_verification = True,
                 ssl_ciphers = Some ''default'', open_limit = 1, expiration = 50\<rparr>)] =
     (Inl BadMatchPattern,
      [(''a'', \<lparr>url_pattern = ''http://a/'', ssl_verification = True,
                 ssl_ciphers = Some ''default'', open_limit = 1, expiration = 50\<rparr>)])"
proof -
  let ?m = "\<lambda>pat u. if pat = [] then None else Some (pat = u)"
  let ?a = "(''a'', \<lparr>url_pattern = ''http://a/'', ssl_verification = True,
                 ssl_ciphers = Some ''default'', open_limit = 1, expiration = 50\<rparr>)"
  let ?p = "\<lparr>url_pattern = ''http://a/'', ssl_verification = False,
                 ssl_ciphers = Some ''modern'', open_limit = 1, expiration = 150\<rparr>"
  let ?o1 = "\<lparr>opt_url_patterns = None, opt_ssl_ciphers = None, opt_ssl_verification = None\<rparr>"
  let ?o2 = "\<lparr>opt_url_patterns = Some [''http://b/'', ''http://a/''],
          opt_ssl_ciphers = Some ''default'', opt_ssl_verification = None\<rparr>"
  let ?o3 = "\<lparr>opt_url_patterns = Some [''http://b/''],
          opt_ssl_ciphers = Some ''default'', opt_ssl_verification = None\<rparr>"
  let ?o4 = "\<lparr>opt_url_patterns = Some ['''', ''http://a/''],
          opt_ssl_ciphers = Some ''default'', opt_ssl_verification = None\<rparr>"
  let ?q = "[(''url'', ''http://a/'')]"
  have q: "map_of ?q ''url'' = Some ''http://a/''" by simp
  note first = get_proxied_url_decision [OF q refl, where regs = "[?a, (''b'', ?p)]"
      and urlmatch = ?m and now = 100 and unquote = "\<lambda>s. s" and opts = ?o1,
      THEN conjunct2, THEN conjunct1, rule_format, of "[?a]" "''b''" ?p "[]"]
  have "get_proxied_url ?m (\<lambda>s. s) ?o1 100 ?q [?a, (''b'', ?p)] =
          (Inr \<lparr>url = ''http://a/'',
                ssl_context =
                  (if ssl_verification ?p
                   then client_context (proxy_ssl_cipher_to_ha_ssl_cipher (ssl_ciphers ?p))
                   else client_context_no_verify
                          (proxy_ssl_cipher_to_ha_ssl_cipher (ssl_ciphers ?p)))\<rparr>,
           consume ''b'' ?p [?a, (''b'', ?p)])"
    by (rule first) (simp add: authorizes_def is_expired_def)
  then have one: "get_proxied_url ?m (\<lambda>s. s) ?o1 100 ?q [?a, (''b'', ?p)] =
          (Inr \<lparr>url = ''http://a/'',
                ssl_context = client_context_no_verify (Verbatim (Some ''modern''))\<rparr>, [?a])"
    by (simp add: consume_def proxy_ssl_cipher_to_ha_ssl_cipher_def CONF_SSL_CIPHERS_DEFAULT_def)
  note static = get_proxied_url_decision [OF q refl, where regs = "[?a]"
      and urlmatch = ?m and now = 100 and unquote = "\<lambda>s. s" and opts = ?o2,
      THEN conjunct2, THEN conjunct2, THEN conjunct1, rule_format,
      of "[''http://b/'']" "''http://a/''" "[]"]
  have "get_proxied_url ?m (\<lambda>s. s) ?o2 100 ?q [?a] =
          (Inr \<lparr>url = ''http://a/'',
                ssl_context =
                  (case opt_ssl_verification ?o2 of
                     None \<Rightarrow>
                       client_context (proxy_ssl_cipher_to_ha_ssl_cipher (opt_ssl_ciphers ?o2))
                   | Some v \<Rightarrow>
                       if v
                       then client_context (proxy_ssl_cipher_to_ha_ssl_cipher (opt_ssl_ciphers ?o2))
                       else client_context_no_verify
                              (proxy_ssl_cipher_to_ha_ssl_cipher (opt_ssl_ciphers ?o2)))\<rparr>,
           [?a])"
    by (rule static) (simp add: authorizes_def is_expired_def)
  then have two: "get_proxied_url ?m (\<lambda>s. s) ?o2 100 ?q [?a] =
          (Inr \<lparr>url = ''http://a/'', ssl_context = client_context PYTHON_DEFAULT\<rparr>, [?a])"
    by (simp add: proxy_ssl_cipher_to_ha_ssl_cipher_def CONF_SSL_CIPHERS_DEFAULT_def)
  note denied = get_proxied_url_decision [OF q refl, where regs = "[?a]"
      and urlmatch = ?m and now = 100 and unquote = "\<lambda>s. s" and opts = ?o3,
      THEN conjunct2, THEN conjunct2, THEN conjunct2, THEN conjunct1, rule_format]
  have "get_proxied_url ?m (\<lambda>s. s) ?o3 100 ?q [?a] =
          (Inl (Denied (if \<exists>e \<in> set [?a]. expired_match ?m 100 ''http://a/'' e
                        then HASSProxyLibExpiredError else HASSProxyLibNotFoundRequestError)),
           [?a])"
    by (rule denied) (simp add: authorizes_def is_expired_def)
  then have three: "get_proxied_url ?m (\<lambda>s. s) ?o3 100 ?q [?a] =
          (Inl (Denied HASSProxyLibExpiredError), [?a])"
    by (simp add: expired_match_def is_expired_def)
  note raised = get_proxied_url_decision [OF q refl, where regs = "[?a]"
      and urlmatch = ?m and now = 100 and unquote = "\<lambda>s. s" and opts = ?o4,
      THEN conjunct2, THEN conjunct2, THEN conjunct2, THEN conjunct2, THEN conjunct2,
      rule_format, of "[]" "''''" "[''http://a/'']"]
  have four: "get_proxied_url ?m (\<lambda>s. s) ?o4 100 ?q [?a] = (Inl BadMatchPattern, [?a])"
    by (rule raised) (simp add: authorizes_def is_expired_def)
  from one two three four show ?thesis by simp
qed

text \<open>
  The static fallback as the specification words it fails when the matcher raises
  before the matching static pattern is reached: on an earlier static pattern, or on
  the pattern of a dynamic entry. The matcher here raises on the empty pattern, as the
  library does, and compares the other patterns with the URL.
\<close>

theorem get_proxied_url_static_counterexample:
  "get_proxied_url (\<lambda>pat u. if pat = [] then None else Some (pat = u)) (\<lambda>s. s)
     \<lparr>opt_url_patterns = Some ['''', ''http://a/''], opt_ssl_ciphers = None,
        opt_ssl_verification = None\<rparr>
     100 [(''url'', ''http://a/'')] [] = (Inl BadMatchPattern, [])
   \<and> get_proxied_url (\<lambda>pat u. if pat = [] then None else Some (pat = u)) (\<lambda>s. s)
     \<lparr>opt_url_patterns = Some [''http://a/''], opt_ssl_ciphers = None,
        opt_ssl_verification = None\<rparr>
     100 [(''url'', ''http://a/'')]
     [(''a'', \<lparr>url_pattern = '''', ssl_verification = True, ssl_ciphers = None,
               open_limit = 1, expiration = 0\<rparr>)] =
     (Inl BadMatchPattern,
      [(''a'', \<lparr>url_pattern = '''', ssl_verification = True, ssl_ciphers = None,
               open_limit = 1, expiration = 0\<rparr>)])"
  by (simp add: get_proxied_url_def static_patterns_def)

text \<open>
  Claim C7, amended. When no dynamic entry authorizes the request and the matcher
  raises on no dynamic pattern and on no static pattern before the first that
  matches, the static patterns are tried in the order of the option \<open>url_patterns\<close>:
  with \<open>pat\<close> the first static pattern that matches, the request is authorized for the
  decoded URL with the context built from the config entry's options, verifying when
  the option \<open>ssl_verification\<close> is absent or true and not verifying when it is false,
  with the cipher list resolved from the option \<open>ssl_ciphers\<close>. Neither the time nor
  any use count enters: the result is the same for every \<open>now\<close>, and the registry is
  returned as it was.
\<close>

theorem get_proxied_url_static:
  assumes "map_of q ''url'' = Some raw"
    and "\<forall>e \<in> set regs. urlmatch (url_pattern (snd e)) (unquote raw) \<noteq> None
                          \<and> \<not> authorizes urlmatch now (unquote raw) e"
    and "opt_url_patterns opts = Some (pre @ pat # post)"
    and "\<forall>x \<in> set pre. urlmatch x (unquote raw) = Some False"
    and "urlmatch pat (unquote raw) = Some True"
  shows "get_proxied_url urlmatch unquote opts now q regs =
           (Inr \<lparr> url = unquote raw,
                  ssl_context =
                    (case opt_ssl_verification opts of
                       None \<Rightarrow>
                         client_context (proxy_ssl_cipher_to_ha_ssl_cipher (opt_ssl_ciphers opts))
                     | Some v \<Rightarrow>
                         if v
                         then client_context
                                (proxy_ssl_cipher_to_ha_ssl_cipher (opt_ssl_ciphers opts))
                         else client_context_no_verify
                                (proxy_ssl_cipher_to_ha_ssl_cipher (opt_ssl_ciphers opts))) \<rparr>,
            regs)"
proof -
  from assms(3) have "static_patterns opts = pre @ pat # post"
    by (simp add: static_patterns_def)
  with assms(4,5) have "scan_static urlmatch (unquote raw) (static_patterns opts) = Some True"
    by (simp add: scan_static_first)
  with assms(1) scan_dynamic_none [OF assms(2), of False] show ?thesis
    by (simp add: get_proxied_url_def Let_def context_for_def get_ssl_context_def
          get_ssl_context_no_verify_def static_verification_def split: option.splits)
qed

theorem get_proxied_url_static_witness:
  "get_proxied_url (\<lambda>pat u. if pat = [] then None else Some (pat = u)) (\<lambda>s. s)
     \<lparr>opt_url_patterns = Some [''http://b/'', ''http://a/'', ''''],
        opt_ssl_ciphers = Some ''insecure'', opt_ssl_verification = Some False\<rparr>
     100 [(''url'', ''http://a/'')]
     [(''a'', \<lparr>url_pattern = ''http://a/'', ssl_verification = True,
               ssl_ciphers = Some ''default'', open_limit = 1, expiration = 50\<rparr>)] =
   (Inr \<lparr>url = ''http://a/'',
         ssl_context = client_context_no_verify (Verbatim (Some ''insecure''))\<rparr>,
    [(''a'', \<lparr>url_pattern = ''http://a/'', ssl_verification = True,
               ssl_ciphers = Some ''default'', open_limit = 1, expiration = 50\<rparr>)])
   \<and> get_proxied_url (\<lambda>pat u. if pat = [] then None else Some (pat = u)) (\<lambda>s. s)
     \<lparr>opt_url_patterns = Some [''http://a/''],
        opt_ssl_ciphers = Some ''modern'', opt_ssl_verification = None\<rparr>
     100 [(''url'', ''http://a/'')] [] =
   (Inr \<lparr>url = ''http://a/'', ssl_context = client_context (Verbatim (Some ''modern''))\<rparr>, [])"
proof -
  let ?m = "\<lambda>pat u. if pat = [] then None else Some (pat = u)"
  let ?a = "(''a'', \<lparr>url_pattern = ''http://a/'', ssl_verification = True,
               ssl_ciphers = Some ''default'', open_limit = 1, expiration = 50\<rparr>)"
  let ?o1 = "\<lparr>opt_url_patterns = Some [''http://b/'', ''http://a/'', ''''],
        opt_ssl_ciphers = Some ''insecure'', opt_ssl_verification = Some False\<rparr>"
  let ?o2 = "\<lparr>opt_url_patterns = Some [''http://a/''],
        opt_ssl_ciphers = Some ''modern'', opt_ssl_verification = None\<rparr>"
  let ?q = "[(''url'', ''http://a/'')]"
  have "get_proxied_url ?m (\<lambda>s. s) ?o1 100 ?q [?a] =
           (Inr \<lparr> url = ''http://a/'',
                  ssl_context =
                    (case opt_ssl_verification ?o1 of
                       None \<Rightarrow>
                         client_context (proxy_ssl_cipher_to_ha_ssl_cipher (opt_ssl_ciphers ?o1))
                     | Some v \<Rightarrow>
                         if v
                         then client_context
                                (proxy_ssl_cipher_to_ha_ssl_cipher (opt_ssl_ciphers ?o1))
                         else client_context_no_verify
                                (proxy_ssl_cipher_to_ha_ssl_cipher (opt_ssl_ciphers ?o1))) \<rparr>,
            [?a])"
    by (rule get_proxied_url_static [where q = ?q and raw = "''http://a/''" and regs = "[?a]"
          and urlmatch = ?m and now = 100 and unquote = "\<lambda>s. s" and opts = ?o1
          and pre = "[''http://b/'']" and pat = "''http://a/''" and post = "['''']"])
       (simp_all add: authorizes_def is_expired_def)
  then have one: "get_proxied_url ?m (\<lambda>s. s) ?o1 100 ?q [?a] =
      (Inr \<lparr>url = ''http://a/'',
            ssl_context = client_context_no_verify (Verbatim (Some ''insecure''))\<rparr>, [?a])"
    by (simp add: proxy_ssl_cipher_to_ha_ssl_cipher_def CONF_SSL_CIPHERS_DEFAULT_def)
  have "get_proxied_url ?m (\<lambda>s. s) ?o2 100 ?q [] =
           (Inr \<lparr> url = ''http://a/'',
                  ssl_context =
                    (case opt_ssl_verification ?o2 of
                       None \<Rightarrow>
                         client_context (proxy_ssl_cipher_to_ha_ssl_cipher (opt_ssl_ciphers ?o2))
                     | Some v \<Rightarrow>
                         if v
                         then client_context
                                (proxy_ssl_cipher_to_ha_ssl_cipher (opt_ssl_ciphers ?o2))
                         else client_context_no_verify
                                (proxy_ssl_cipher_to_ha_ssl_cipher (opt_ssl_ciphers ?o2))) \<rparr>,
            [])"
    by (rule get_proxied_url_static [where q = ?q and raw = "''http://a/''" and regs = "[]"
          and urlmatch = ?m and now = 100 and unquote = "\<lambda>s. s" and opts = ?o2
          and pre = "[]" and pat = "''http://a/''" and post = "[]"])
       simp_all
  then have two: "get_proxied_url ?m (\<lambda>s. s) ?o2 100 ?q [] =
      (Inr \<lparr>url = ''http://a/'', ssl_context = client_context (Verbatim (Some ''modern''))\<rparr>, [])"
    by (simp add: proxy_ssl_cipher_to_ha_ssl_cipher_def CONF_SSL_CIPHERS_DEFAULT_def)
  from one two show ?thesis by simp
qed

text \<open>
  Claim C8. A request that is denied, with either error, returns the registry it was
  given: no entry is decremented, removed or changed. The same holds when the request
  ends with the matcher's exception.
\<close>

theorem get_proxied_url_denied_unchanged:
  assumes "fst (get_proxied_url urlmatch unquote opts now q regs) = Inl err"
  shows "snd (get_proxied_url urlmatch unquote opts now q regs) = regs"
  using assms
  by (auto simp: get_proxied_url_def Let_def split: option.splits scan_result.splits if_splits)

theorem get_proxied_url_denied_unchanged_witness:
  "fst (get_proxied_url (\<lambda>pat u. if pat = [] then None else Some (pat = u)) (\<lambda>s. s)
     \<lparr>opt_url_patterns = None, opt_ssl_ciphers = None, opt_ssl_verification = None\<rparr>
     100 [(''url'', ''http://a/'')]
     [(''a'', \<lparr>url_pattern = ''http://a/'', ssl_verification = True, ssl_ciphers = None,
               open_limit = 3, expiration = 50\<rparr>)]) = Inl (Denied HASSProxyLibExpiredError)
   \<and> snd (get_proxied_url (\<lambda>pat u. if pat = [] then None else Some (pat = u)) (\<lambda>s. s)
     \<lparr>opt_url_patterns = None, opt_ssl_ciphers = None, opt_ssl_verification = None\<rparr>
     100 [(''url'', ''http://a/'')]
     [(''a'', \<lparr>url_pattern = ''http://a/'', ssl_verification = True, ssl_ciphers = None,
               open_limit = 3, expiration = 50\<rparr>)]) =
     [(''a'', \<lparr>url_pattern = ''http://a/'', ssl_verification = True, ssl_ciphers = None,
               open_limit = 3, expiration = 50\<rparr>)]"
proof -
  let ?m = "\<lambda>pat u. if pat = [] then None else Some (pat = u)"
  let ?o = "\<lparr>opt_url_patterns = None, opt_ssl_ciphers = None, opt_ssl_verification = None\<rparr>"
  let ?r = "[(''a'', \<lparr>url_pattern = ''http://a/'', ssl_verification = True, ssl_ciphers = None,
               open_limit = 3, expiration = 50\<rparr>)]"
  have d: "fst (get_proxied_url ?m (\<lambda>s. s) ?o 100 [(''url'', ''http://a/'')] ?r) =
             Inl (Denied HASSProxyLibExpiredError)"
    by (simp add: get_proxied_url_def is_expired_def static_patterns_def)
  from d get_proxied_url_denied_unchanged [OF d] show ?thesis by simp
qed

text \<open>
  Claim C9. A request whose query has no \<open>url\<close> parameter is denied with
  \<open>HASSProxyLibNotFoundRequestError\<close>, whatever the matcher, the options, the time and
  the registry are, and the registry is returned as it was.
\<close>

theorem get_proxied_url_no_url:
  assumes "map_of q ''url'' = None"
  shows "get_proxied_url urlmatch unquote opts now q regs =
           (Inl (Denied HASSProxyLibNotFoundRequestError), regs)"
  using assms by (simp add: get_proxied_url_def)

theorem get_proxied_url_no_url_witness:
  "map_of [(''uri'', ''http://a/'')] ''url'' = None
   \<and> get_proxied_url (\<lambda>pat u. if pat = [] then None else Some (pat = u)) (\<lambda>s. s)
       \<lparr>opt_url_patterns = Some [''http://a/''], opt_ssl_ciphers = None,
          opt_ssl_verification = None\<rparr>
       100 [(''uri'', ''http://a/'')]
       [(''a'', \<lparr>url_pattern = ''http://a/'', ssl_verification = True, ssl_ciphers = None,
                 open_limit = 0, expiration = 0\<rparr>),
        (''b'', \<lparr>url_pattern = '''', ssl_verification = True, ssl_ciphers = None,
                 open_limit = 0, expiration = 0\<rparr>)] =
     (Inl (Denied HASSProxyLibNotFoundRequestError),
      [(''a'', \<lparr>url_pattern = ''http://a/'', ssl_verification = True, ssl_ciphers = None,
                 open_limit = 0, expiration = 0\<rparr>),
       (''b'', \<lparr>url_pattern = '''', ssl_verification = True, ssl_ciphers = None,
                 open_limit = 0, expiration = 0\<rparr>)])"
proof -
  have q: "map_of [(''uri'', ''http://a/'')] ''url'' = None" by simp
  from q get_proxied_url_no_url [OF q] show ?thesis by simp
qed

section \<open>SSL contexts\<close>

text \<open>
  Claim C10. The cipher profile \<open>default\<close> becomes \<open>PYTHON_DEFAULT\<close>; every other value,
  among them \<open>insecure\<close>, \<open>modern\<close> and \<open>intermediate\<close>, is passed on as it is. With
  verification the context is \<open>client_context\<close> of the resolved cipher list, without
  it \<open>client_context_no_verify\<close> of the resolved cipher list.
\<close>

theorem ssl_context_resolution:
  "proxy_ssl_cipher_to_ha_ssl_cipher (Some CONF_SSL_CIPHERS_DEFAULT) = PYTHON_DEFAULT
   \<and> (ciphers \<noteq> Some CONF_SSL_CIPHERS_DEFAULT
        \<longrightarrow> proxy_ssl_cipher_to_ha_ssl_cipher ciphers = Verbatim ciphers)
   \<and> proxy_ssl_cipher_to_ha_ssl_cipher (Some ''insecure'') = Verbatim (Some ''insecure'')
   \<and> proxy_ssl_cipher_to_ha_ssl_cipher (Some ''modern'') = Verbatim (Some ''modern'')
   \<and> proxy_ssl_cipher_to_ha_ssl_cipher (Some ''intermediate'') = Verbatim (Some ''intermediate'')
   \<and> context_for True ciphers = client_context (proxy_ssl_cipher_to_ha_ssl_cipher ciphers)
   \<and> context_for False ciphers =
       client_context_no_verify (proxy_ssl_cipher_to_ha_ssl_cipher ciphers)"
  by (simp add: proxy_ssl_cipher_to_ha_ssl_cipher_def CONF_SSL_CIPHERS_DEFAULT_def
        context_for_def get_ssl_context_def get_ssl_context_no_verify_def)

theorem ssl_context_resolution_witness:
  "Some ''modern'' \<noteq> Some CONF_SSL_CIPHERS_DEFAULT
   \<and> proxy_ssl_cipher_to_ha_ssl_cipher (Some ''modern'') = Verbatim (Some ''modern'')
   \<and> context_for False (Some ''modern'') = client_context_no_verify (Verbatim (Some ''modern''))
   \<and> context_for True (Some ''default'') = client_context PYTHON_DEFAULT"
proof -
  have n: "Some ''modern'' \<noteq> Some CONF_SSL_CIPHERS_DEFAULT"
    by (simp add: CONF_SSL_CIPHERS_DEFAULT_def)
  from n ssl_context_resolution [of "Some ''modern''"] ssl_context_resolution [of "Some ''default''"]
  show ?thesis by (simp add: CONF_SSL_CIPHERS_DEFAULT_def)
qed

section \<open>Use counts and expiry\<close>

lemma unlimited_entry_kept:
  assumes "distinct (map fst regs)" and "map_of regs k = Some p" and "open_limit p = 0"
  shows "map_of (snd (get_proxied_url urlmatch unquote opts now q regs)) k = Some p"
proof -
  from get_proxied_url_cases [of regs urlmatch unquote opts now q]
  show ?thesis
  proof
    assume "\<exists>k' p'. (k', p') \<in> set regs
        \<and> snd (get_proxied_url urlmatch unquote opts now q regs) = consume k' p' regs
        \<and> (\<exists>raw. map_of q ''url'' = Some raw \<and> authorizes urlmatch now (unquote raw) (k', p'))"
    then obtain k' p' where kp: "(k', p') \<in> set regs"
      and s: "snd (get_proxied_url urlmatch unquote opts now q regs) = consume k' p' regs"
      by blast
    from assms(1) kp have "map_of regs k' = Some p'" by simp
    with assms(2,3) have "k' = k \<longrightarrow> open_limit p' = 0" by auto
    with s assms(2) show ?thesis by (auto simp: map_of_consume)
  next
    assume "snd (get_proxied_url urlmatch unquote opts now q regs) = regs"
    with assms(2) show ?thesis by simp
  qed
qed

lemma unlimited_entry_kept_run:
  assumes "\<forall>op \<in> set ops. is_request op"
    and "distinct (map fst regs)" and "map_of regs k = Some p" and "open_limit p = 0"
  shows "map_of (run_from urlmatch unquote float_add opts regs ops) k = Some p"
  using assms
proof (induction ops rule: rev_induct)
  case Nil
  then show ?case by (simp add: run_from_def)
next
  case (snoc op ops)
  then have ih: "map_of (run_from urlmatch unquote float_add opts regs ops) k = Some p" by simp
  from snoc.prems obtain q now where op: "op = Request q now"
    by (cases op) auto
  from snoc.prems(2)
  have "distinct (map fst (run_from urlmatch unquote float_add opts regs ops))"
    by (rule distinct_run_from)
  from unlimited_entry_kept [OF this ih snoc.prems(4)] op show ?case
    by (simp add: run_from_snoc)
qed

text \<open>
  Claim C3. Let the entry \<open>(k, p)\<close> be the one that authorizes a request: the scan
  has passed the entries before it, none of which authorizes and on none of which the
  matcher raises, and its own pattern matches and it has not expired. If its
  \<open>open_limit\<close> is positive, the entry is removed when the limit was 1, and otherwise
  stays at its place with the limit decremented by one and nothing else changed. If
  its \<open>open_limit\<close> is 0, the registry is returned as it was, and the entry is still
  in the registry, unchanged, after any further sequence of requests.
\<close>

theorem get_proxied_url_consumes:
  assumes "map_of q ''url'' = Some raw"
    and "distinct (map fst (pre @ (k, p) # post))"
    and "\<forall>e \<in> set pre. urlmatch (url_pattern (snd e)) (unquote raw) \<noteq> None
                         \<and> \<not> authorizes urlmatch now (unquote raw) e"
    and "authorizes urlmatch now (unquote raw) (k, p)"
  shows "(0 < open_limit p \<longrightarrow>
            snd (get_proxied_url urlmatch unquote opts now q (pre @ (k, p) # post)) =
              (if open_limit p - 1 = 0 then pre @ post
               else pre @ (k, p\<lparr>open_limit := open_limit p - 1\<rparr>) # post))
         \<and> (open_limit p = 0 \<longrightarrow>
              snd (get_proxied_url urlmatch unquote opts now q (pre @ (k, p) # post)) =
                pre @ (k, p) # post
              \<and> (\<forall>float_add ops. (\<forall>op \<in> set ops. is_request op) \<longrightarrow>
                    map_of (run_from urlmatch unquote float_add opts (pre @ (k, p) # post) ops) k
                      = Some p))"
proof -
  from assms(3,4)
  have "scan_dynamic urlmatch now (unquote raw) (pre @ (k, p) # post) False = Authorized k p"
    by (rule scan_dynamic_first)
  with assms(1)
  have s: "snd (get_proxied_url urlmatch unquote opts now q (pre @ (k, p) # post)) =
          consume k p (pre @ (k, p) # post)"
    by (simp add: get_proxied_url_def Let_def)
  have m: "map_of (pre @ (k, p) # post) k = Some p"
    using assms(2) by (intro map_of_at_key) simp_all
  show ?thesis
    using s unlimited_entry_kept_run [OF _ assms(2) m]
    by (auto simp: consume_at_key [OF assms(2)])
qed

theorem get_proxied_url_consumes_witness:
  "snd (get_proxied_url (\<lambda>pat u. if pat = [] then None else Some (pat = u)) (\<lambda>s. s)
          \<lparr>opt_url_patterns = None, opt_ssl_ciphers = None, opt_ssl_verification = None\<rparr>
          100 [(''url'', ''http://a/'')]
          [(''a'', \<lparr>url_pattern = ''http://a/'', ssl_verification = True, ssl_ciphers = None,
                    open_limit = 5, expiration = 50\<rparr>),
           (''b'', \<lparr>url_pattern = ''http://a/'', ssl_verification = True, ssl_ciphers = None,
                    open_limit = 2, expiration = 0\<rparr>)]) =
     [(''a'', \<lparr>url_pattern = ''http://a/'', ssl_verification = True, ssl_ciphers = None,
               open_limit = 5, expiration = 50\<rparr>),
      (''b'', \<lparr>url_pattern = ''http://a/'', ssl_verification = True, ssl_ciphers = None,
               open_limit = 1, expiration = 0\<rparr>)]
   \<and> snd (get_proxied_url (\<lambda>pat u. if pat = [] then None else Some (pat = u)) (\<lambda>s. s)
          \<lparr>opt_url_patterns = None, opt_ssl_ciphers = None, opt_ssl_verification = None\<rparr>
          100 [(''url'', ''http://a/'')]
          [(''a'', \<lparr>url_pattern = ''http://a/'', ssl_verification = True, ssl_ciphers = None,
                    open_limit = 5, expiration = 50\<rparr>),
           (''b'', \<lparr>url_pattern = ''http://a/'', ssl_verification = True, ssl_ciphers = None,
                    open_limit = 1, expiration = 0\<rparr>)]) =
     [(''a'', \<lparr>url_pattern = ''http://a/'', ssl_verification = True, ssl_ciphers = None,
               open_limit = 5, expiration = 50\<rparr>)]
   \<and> map_of (run_from (\<lambda>pat u. if pat = [] then None else Some (pat = u)) (\<lambda>s. s)
          (\<lambda>x n. if \<bar>n\<bar> < 2 ^ 1024 then Some (x + of_int n) else None)
          \<lparr>opt_url_patterns = None, opt_ssl_ciphers = None, opt_ssl_verification = None\<rparr>
          [(''a'', \<lparr>url_pattern = ''http://a/'', ssl_verification = True, ssl_ciphers = None,
                    open_limit = 5, expiration = 50\<rparr>),
           (''b'', \<lparr>url_pattern = ''http://a/'', ssl_verification = True, ssl_ciphers = None,
                    open_limit = 0, expiration = 0\<rparr>)]
          [Request [(''url'', ''http://a/'')] 100, Request [(''url'', ''http://a/'')] 200]) ''b'' =
     Some \<lparr>url_pattern = ''http://a/'', ssl_verification = True, ssl_ciphers = None,
            open_limit = 0, expiration = 0\<rparr>"
proof -
  let ?m = "\<lambda>pat u. if pat = [] then None else Some (pat = u)"
  let ?f = "\<lambda>x n. if \<bar>n\<bar> < 2 ^ 1024 then Some (x + of_int n) else None"
  let ?o = "\<lparr>opt_url_patterns = None, opt_ssl_ciphers = None, opt_ssl_verification = None\<rparr>"
  let ?a = "(''a'', \<lparr>url_pattern = ''http://a/'', ssl_verification = True, ssl_ciphers = None,
                    open_limit = 5, expiration = 50\<rparr>)"
  let ?p2 = "\<lparr>url_pattern = ''http://a/'', ssl_verification = True, ssl_ciphers = None,
                    open_limit = 2, expiration = 0\<rparr>"
  let ?p1 = "\<lparr>url_pattern = ''http://a/'', ssl_verification = True, ssl_ciphers = None,
                    open_limit = 1, expiration = 0\<rparr>"
  let ?p0 = "\<lparr>url_pattern = ''http://a/'', ssl_verification = True, ssl_ciphers = None,
                    open_limit = 0, expiration = 0\<rparr>"
  let ?q = "[(''url'', ''http://a/'')]"
  have q: "map_of ?q ''url'' = Some ''http://a/''" by simp
  have pre: "\<forall>e \<in> set [?a]. ?m (url_pattern (snd e)) ''http://a/'' \<noteq> None
                            \<and> \<not> authorizes ?m 100 ''http://a/'' e"
    by (simp add: authorizes_def is_expired_def)
  have two: "snd (get_proxied_url ?m (\<lambda>s. s) ?o 100 ?q [?a, (''b'', ?p2)]) = [?a, (''b'', ?p1)]"
    using get_proxied_url_consumes [where q = ?q and raw = "''http://a/''" and pre = "[?a]"
            and k = "''b''" and p = ?p2 and post = "[]" and urlmatch = ?m and now = 100
            and unquote = "\<lambda>s. s" and opts = ?o, OF q _ pre]
    by (simp add: authorizes_def is_expired_def)
  have one: "snd (get_proxied_url ?m (\<lambda>s. s) ?o 100 ?q [?a, (''b'', ?p1)]) = [?a]"
    using get_proxied_url_consumes [where q = ?q and raw = "''http://a/''" and pre = "[?a]"
            and k = "''b''" and p = ?p1 and post = "[]" and urlmatch = ?m and now = 100
            and unquote = "\<lambda>s. s" and opts = ?o, OF q _ pre]
    by (simp add: authorizes_def is_expired_def)
  have "open_limit ?p0 = 0 \<longrightarrow>
          snd (get_proxied_url ?m (\<lambda>s. s) ?o 100 ?q ([?a] @ (''b'', ?p0) # [])) =
            [?a] @ (''b'', ?p0) # []
          \<and> (\<forall>float_add ops. (\<forall>op \<in> set ops. is_request op) \<longrightarrow>
                map_of (run_from ?m (\<lambda>s. s) float_add ?o ([?a] @ (''b'', ?p0) # []) ops) ''b''
                  = Some ?p0)"
    by (rule get_proxied_url_consumes [where q = ?q and raw = "''http://a/''" and pre = "[?a]"
            and k = "''b''" and p = ?p0 and post = "[]" and urlmatch = ?m and now = 100
            and unquote = "\<lambda>s. s" and opts = ?o, OF q _ pre, THEN conjunct2])
       (simp_all add: authorizes_def is_expired_def)
  then have "\<forall>float_add ops. (\<forall>op \<in> set ops. is_request op) \<longrightarrow>
                map_of (run_from ?m (\<lambda>s. s) float_add ?o [?a, (''b'', ?p0)] ops) ''b'' = Some ?p0"
    by simp
  moreover have "\<forall>op \<in> set [Request ?q 100, Request ?q 200]. is_request op"
    by simp
  ultimately have zero: "map_of (run_from ?m (\<lambda>s. s) ?f ?o [?a, (''b'', ?p0)]
                     [Request ?q 100, Request ?q 200]) ''b'' = Some ?p0"
    by blast
  from two one zero show ?thesis by simp
qed

text \<open>
  Claim C4. An entry of the registry that has expired (\<open>expiration\<close> is not 0 and lies
  before \<open>now\<close>) and whose pattern matches the requested URL is never the entry that
  authorizes the request, whatever its \<open>open_limit\<close> is, and it is in the registry
  after the request exactly as before: neither decremented nor removed. A denial of
  such a request is \<open>HASSProxyLibExpiredError\<close>.
\<close>

theorem expired_entry_untouched:
  assumes "map_of q ''url'' = Some raw"
    and "distinct (map fst regs)"
    and "(k, p) \<in> set regs"
    and "expiration p \<noteq> 0" and "expiration p < now"
    and "urlmatch (url_pattern p) (unquote raw) = Some True"
  shows "(\<forall>p'. scan_dynamic urlmatch now (unquote raw) regs False \<noteq> Authorized k p')
         \<and> map_of (snd (get_proxied_url urlmatch unquote opts now q regs)) k = Some p
         \<and> (\<forall>err. fst (get_proxied_url urlmatch unquote opts now q regs) = Inl (Denied err)
                \<longrightarrow> err = HASSProxyLibExpiredError)"
proof -
  have m: "map_of regs k = Some p"
    using assms(2,3) by (rule map_of_at_key)
  have ex: "expired_match urlmatch now (unquote raw) (k, p)"
    using assms(4,5,6) by (simp add: expired_match_def is_expired_def)
  have other: "k' \<noteq> k"
    if "scan_dynamic urlmatch now (unquote raw) regs False = Authorized k' p'" for k' p'
  proof
    assume "k' = k"
    from scan_dynamic_Authorized [OF that]
    have "(k', p') \<in> set regs" "authorizes urlmatch now (unquote raw) (k', p')" by simp_all
    with \<open>k' = k\<close> assms(2) have "map_of regs k = Some p'" by simp
    with m have "p' = p" by simp
    with \<open>authorizes urlmatch now (unquote raw) (k', p')\<close> ex show False
      by (simp add: authorizes_def expired_match_def)
  qed
  then have a: "\<forall>p'. scan_dynamic urlmatch now (unquote raw) regs False \<noteq> Authorized k p'"
    by blast
  have b: "map_of (snd (get_proxied_url urlmatch unquote opts now q regs)) k = Some p"
    using assms(1) m other
    by (auto simp: get_proxied_url_def Let_def map_of_consume
          split: scan_result.splits option.splits)
  have c: "err = HASSProxyLibExpiredError"
    if d: "fst (get_proxied_url urlmatch unquote opts now q regs) = Inl (Denied err)" for err
  proof (cases "scan_dynamic urlmatch now (unquote raw) regs False")
    case (Authorized k' p')
    with d assms(1) show ?thesis by (simp add: get_proxied_url_def Let_def)
  next
    case Raised
    with d assms(1) show ?thesis by (simp add: get_proxied_url_def Let_def)
  next
    case (Exhausted b)
    from scan_dynamic_Exhausted [OF this] assms(3) ex have "b" by blast
    with Exhausted d assms(1) show ?thesis
      by (auto simp: get_proxied_url_def Let_def split: option.splits if_splits)
  qed
  from a b c show ?thesis by blast
qed

theorem expired_entry_untouched_witness:
  "map_of (snd (get_proxied_url (\<lambda>pat u. if pat = [] then None else Some (pat = u)) (\<lambda>s. s)
          \<lparr>opt_url_patterns = None, opt_ssl_ciphers = None, opt_ssl_verification = None\<rparr>
          100 [(''url'', ''http://a/'')]
          [(''a'', \<lparr>url_pattern = ''http://a/'', ssl_verification = True, ssl_ciphers = None,
                    open_limit = 5, expiration = 50\<rparr>),
           (''b'', \<lparr>url_pattern = ''http://a/'', ssl_verification = True, ssl_ciphers = None,
                    open_limit = 1, expiration = 0\<rparr>)])) ''a'' =
     Some \<lparr>url_pattern = ''http://a/'', ssl_verification = True, ssl_ciphers = None,
            open_limit = 5, expiration = 50\<rparr>
   \<and> scan_dynamic (\<lambda>pat u. if pat = [] then None else Some (pat = u)) 100 ''http://a/''
          [(''a'', \<lparr>url_pattern = ''http://a/'', ssl_verification = True, ssl_ciphers = None,
                    open_limit = 5, expiration = 50\<rparr>),
           (''b'', \<lparr>url_pattern = ''http://a/'', ssl_verification = True, ssl_ciphers = None,
                    open_limit = 1, expiration = 0\<rparr>)] False \<noteq>
       Authorized ''a'' \<lparr>url_pattern = ''http://a/'', ssl_verification = True, ssl_ciphers = None,
                    open_limit = 5, expiration = 50\<rparr>"
proof -
  let ?m = "\<lambda>pat u. if pat = [] then None else Some (pat = u)"
  let ?o = "\<lparr>opt_url_patterns = None, opt_ssl_ciphers = None, opt_ssl_verification = None\<rparr>"
  let ?pa = "\<lparr>url_pattern = ''http://a/'', ssl_verification = True, ssl_ciphers = None,
                    open_limit = 5, expiration = 50\<rparr>"
  let ?b = "(''b'', \<lparr>url_pattern = ''http://a/'', ssl_verification = True, ssl_ciphers = None,
                    open_limit = 1, expiration = 0\<rparr>)"
  let ?q = "[(''url'', ''http://a/'')]"
  have q: "map_of ?q ''url'' = Some ''http://a/''" by simp
  have d: "distinct (map fst [(''a'', ?pa), ?b])" by simp
  have i: "(''a'', ?pa) \<in> set [(''a'', ?pa), ?b]" by simp
  have e: "expiration ?pa \<noteq> 0" "expiration ?pa < 100"
    "?m (url_pattern ?pa) ''http://a/'' = Some True" by simp_all
  from expired_entry_untouched [where q = ?q and raw = "''http://a/''"
      and regs = "[(''a'', ?pa), ?b]" and k = "''a''" and p = ?pa and now = 100
      and urlmatch = ?m and unquote = "\<lambda>s. s" and opts = ?o, OF q d i e]
  show ?thesis by blast
qed

section \<open>Deletion\<close>

text \<open>
  Claim C6. \<open>delete_proxied_url\<close> raises exactly when the id is not a key of the
  registry, the error being the validation error \<open>url_id_not_found\<close>, and then the
  registry is unchanged. When the id is a key, the call succeeds and the registry is
  the old one without the entries under that id, the others unchanged and in their
  order. Afterwards no request is authorized by an entry under that id, and a request
  whose URL no remaining dynamic entry and no static pattern matches is denied with
  \<open>HASSProxyLibNotFoundRequestError\<close>.
\<close>

theorem delete_proxied_url_correct:
  "((\<exists>err. fst (delete_proxied_url k regs) = Inl err) \<longleftrightarrow> k \<notin> set (map fst regs))
   \<and> (k \<notin> set (map fst regs) \<longrightarrow>
        delete_proxied_url k regs = (Inl (ServiceValidationError ''url_id_not_found'' k), regs))
   \<and> (k \<in> set (map fst regs) \<longrightarrow>
        delete_proxied_url k regs = (Inr (), filter (\<lambda>e. fst e \<noteq> k) regs)
        \<and> map_of (snd (delete_proxied_url k regs)) k = None
        \<and> (\<forall>k'. k' \<noteq> k \<longrightarrow> map_of (snd (delete_proxied_url k regs)) k' = map_of regs k')
        \<and> (\<forall>urlmatch now u b p.
              scan_dynamic urlmatch now u (snd (delete_proxied_url k regs)) b \<noteq> Authorized k p)
        \<and> (\<forall>urlmatch unquote opts now q raw.
              map_of q ''url'' = Some raw
              \<and> (\<forall>e \<in> set regs. fst e \<noteq> k \<longrightarrow>
                     urlmatch (url_pattern (snd e)) (unquote raw) = Some False)
              \<and> (\<forall>pat \<in> set (static_patterns opts). urlmatch pat (unquote raw) = Some False)
              \<longrightarrow> fst (get_proxied_url urlmatch unquote opts now q (snd (delete_proxied_url k regs)))
                    = Inl (Denied HASSProxyLibNotFoundRequestError)))"
proof (intro conjI impI allI)
  show "(\<exists>err. fst (delete_proxied_url k regs) = Inl err) \<longleftrightarrow> k \<notin> set (map fst regs)"
    by (simp add: delete_proxied_url_def)
next
  assume "k \<notin> set (map fst regs)"
  then show "delete_proxied_url k regs = (Inl (ServiceValidationError ''url_id_not_found'' k), regs)"
    by (simp add: delete_proxied_url_def)
next
  assume k: "k \<in> set (map fst regs)"
  have f: "AList.delete k regs = filter (\<lambda>e. fst e \<noteq> k) regs"
    by (simp add: AList.delete_eq case_prod_unfold eq_commute)
  with k show d: "delete_proxied_url k regs = (Inr (), filter (\<lambda>e. fst e \<noteq> k) regs)"
    by (simp add: delete_proxied_url_def)
  from k show "map_of (snd (delete_proxied_url k regs)) k = None"
    by (simp add: delete_proxied_url_def delete_conv')
  show "map_of (snd (delete_proxied_url k regs)) k' = map_of regs k'" if "k' \<noteq> k" for k'
    using k that by (simp add: delete_proxied_url_def delete_conv')
  show "scan_dynamic urlmatch now u (snd (delete_proxied_url k regs)) b \<noteq> Authorized k p"
    for urlmatch now u b p
  proof
    assume "scan_dynamic urlmatch now u (snd (delete_proxied_url k regs)) b = Authorized k p"
    from scan_dynamic_Authorized [OF this] d show False by simp
  qed
  show "fst (get_proxied_url urlmatch unquote opts now q (snd (delete_proxied_url k regs)))
          = Inl (Denied HASSProxyLibNotFoundRequestError)"
    if "map_of q ''url'' = Some raw
        \<and> (\<forall>e \<in> set regs. fst e \<noteq> k \<longrightarrow>
               urlmatch (url_pattern (snd e)) (unquote raw) = Some False)
        \<and> (\<forall>pat \<in> set (static_patterns opts). urlmatch pat (unquote raw) = Some False)"
    for urlmatch unquote opts now q raw
  proof -
    let ?regs' = "snd (delete_proxied_url k regs)"
    from that d
    have n: "\<forall>e \<in> set ?regs'. urlmatch (url_pattern (snd e)) (unquote raw) = Some False"
      by simp
    then have "\<forall>e \<in> set ?regs'. urlmatch (url_pattern (snd e)) (unquote raw) \<noteq> None
                  \<and> \<not> authorizes urlmatch now (unquote raw) e"
      and "\<not> (\<exists>e \<in> set ?regs'. expired_match urlmatch now (unquote raw) e)"
      by (simp_all add: authorizes_def expired_match_def)
    moreover from that
    have "scan_static urlmatch (unquote raw) (static_patterns opts) = Some False"
      by (simp add: scan_static_none)
    ultimately show ?thesis
      using that by (simp add: get_proxied_url_def Let_def scan_dynamic_none)
  qed
qed

theorem delete_proxied_url_correct_witness:
  "delete_proxied_url ''a''
     [(''a'', \<lparr>url_pattern = ''http://a/'', ssl_verification = True, ssl_ciphers = None,
               open_limit = 5, expiration = 50\<rparr>),
      (''b'', \<lparr>url_pattern = ''http://b/'', ssl_verification = True, ssl_ciphers = None,
               open_limit = 1, expiration = 0\<rparr>)] =
     (Inr (), [(''b'', \<lparr>url_pattern = ''http://b/'', ssl_verification = True, ssl_ciphers = None,
               open_limit = 1, expiration = 0\<rparr>)])
   \<and> fst (get_proxied_url (\<lambda>pat u. if pat = [] then None else Some (pat = u)) (\<lambda>s. s)
          \<lparr>opt_url_patterns = None, opt_ssl_ciphers = None, opt_ssl_verification = None\<rparr>
          100 [(''url'', ''http://a/'')]
          (snd (delete_proxied_url ''a''
            [(''a'', \<lparr>url_pattern = ''http://a/'', ssl_verification = True, ssl_ciphers = None,
                      open_limit = 5, expiration = 50\<rparr>),
             (''b'', \<lparr>url_pattern = ''http://b/'', ssl_verification = True, ssl_ciphers = None,
                      open_limit = 1, expiration = 0\<rparr>)]))) =
       Inl (Denied HASSProxyLibNotFoundRequestError)
   \<and> delete_proxied_url ''c''
       [(''b'', \<lparr>url_pattern = ''http://b/'', ssl_verification = True, ssl_ciphers = None,
                 open_limit = 1, expiration = 0\<rparr>)] =
       (Inl (ServiceValidationError ''url_id_not_found'' ''c''),
        [(''b'', \<lparr>url_pattern = ''http://b/'', ssl_verification = True, ssl_ciphers = None,
                 open_limit = 1, expiration = 0\<rparr>)])"
proof -
  let ?m = "\<lambda>pat u. if pat = [] then None else Some (pat = u)"
  let ?o = "\<lparr>opt_url_patterns = None, opt_ssl_ciphers = None, opt_ssl_verification = None\<rparr>"
  let ?a = "(''a'', \<lparr>url_pattern = ''http://a/'', ssl_verification = True, ssl_ciphers = None,
               open_limit = 5, expiration = 50\<rparr>)"
  let ?b = "(''b'', \<lparr>url_pattern = ''http://b/'', ssl_verification = True, ssl_ciphers = None,
               open_limit = 1, expiration = 0\<rparr>)"
  note present = delete_proxied_url_correct [of "''a''" "[?a, ?b]", THEN conjunct2, THEN conjunct2,
      THEN mp]
  have in_keys: "''a'' \<in> set (map fst [?a, ?b])" by simp
  from present [OF in_keys]
  have one: "delete_proxied_url ''a'' [?a, ?b] = (Inr (), filter (\<lambda>e. fst e \<noteq> ''a'') [?a, ?b])"
    by (rule conjunct1)
  from present [OF in_keys]
  have "\<forall>urlmatch unquote opts now q raw.
              map_of q ''url'' = Some raw
              \<and> (\<forall>e \<in> set [?a, ?b]. fst e \<noteq> ''a'' \<longrightarrow>
                     urlmatch (url_pattern (snd e)) (unquote raw) = Some False)
              \<and> (\<forall>pat \<in> set (static_patterns opts). urlmatch pat (unquote raw) = Some False)
              \<longrightarrow> fst (get_proxied_url urlmatch unquote opts now q
                         (snd (delete_proxied_url ''a'' [?a, ?b])))
                    = Inl (Denied HASSProxyLibNotFoundRequestError)"
    by blast
  note this [rule_format, of "[(''url'', ''http://a/'')]" "''http://a/''" ?m "\<lambda>s. s" ?o 100]
  then have two: "fst (get_proxied_url ?m (\<lambda>s. s) ?o 100 [(''url'', ''http://a/'')]
                         (snd (delete_proxied_url ''a'' [?a, ?b])))
                    = Inl (Denied HASSProxyLibNotFoundRequestError)"
    by (simp add: static_patterns_def)
  have absent: "''c'' \<notin> set (map fst [?b])" by simp
  from delete_proxied_url_correct [of "''c''" "[?b]", THEN conjunct2, THEN conjunct1, THEN mp,
      OF absent]
  have three: "delete_proxied_url ''c'' [?b] =
                 (Inl (ServiceValidationError ''url_id_not_found'' ''c''), [?b])" .
  from one two three show ?thesis by simp
qed

section \<open>Creation\<close>











section \<open>Entries with open limit 0\<close>

lemma get_proxied_url_step:
  assumes "distinct (map fst regs)"
    and "map_of (snd (get_proxied_url urlmatch unquote opts now q regs)) k = Some p'"
  shows "\<exists>p. map_of regs k = Some p
           \<and> (p' = p \<or> (p' = p\<lparr>open_limit := open_limit p - 1\<rparr> \<and> open_limit p - 1 \<noteq> 0))"
proof -
  from get_proxied_url_cases [of regs urlmatch unquote opts now q]
  show ?thesis
  proof
    assume "\<exists>k0 p0. (k0, p0) \<in> set regs
        \<and> snd (get_proxied_url urlmatch unquote opts now q regs) = consume k0 p0 regs
        \<and> (\<exists>raw. map_of q ''url'' = Some raw \<and> authorizes urlmatch now (unquote raw) (k0, p0))"
    then obtain k0 p0 where kp: "(k0, p0) \<in> set regs"
      and s: "snd (get_proxied_url urlmatch unquote opts now q regs) = consume k0 p0 regs"
      by blast
    from assms(1) kp have m: "map_of regs k0 = Some p0" by simp
    from assms(2) s have c: "map_of (consume k0 p0 regs) k = Some p'" by simp
    show ?thesis
    proof (cases "k = k0 \<and> open_limit p0 \<noteq> 0")
      case True
      with c have "open_limit p0 \<noteq> 1" "p' = p0\<lparr>open_limit := open_limit p0 - 1\<rparr>"
        by (auto simp: map_of_consume split: if_splits)
      with True m show ?thesis by auto
    next
      case False
      with c have "map_of regs k = Some p'"
        by (auto simp: map_of_consume split: if_splits)
      then show ?thesis by simp
    qed
  next
    assume "snd (get_proxied_url urlmatch unquote opts now q regs) = regs"
    with assms(2) show ?thesis by simp
  qed
qed

lemma created_by_mono: "created_by float_add ops k p \<Longrightarrow> created_by float_add (ops @ [op]) k p"
  unfolding created_by_def by auto

lemma run_created_by:
  "map_of (run urlmatch unquote float_add opts ops) k = Some p \<Longrightarrow> created_by float_add ops k p"
proof (induction ops arbitrary: k p rule: rev_induct)
  case Nil
  then show ?case by (simp add: run_def run_from_def)
next
  case (snoc op ops)
  let ?regs = "run urlmatch unquote float_add opts ops"
  have r: "run urlmatch unquote float_add opts (ops @ [op]) =
             apply_operation urlmatch unquote float_add opts ?regs op"
    by (simp add: run_def run_from_snoc)
  show ?case
  proof (cases op)
    case (Create c uuid4 t)
    show ?thesis
    proof (cases "create_entry float_add c t")
      case None
      with snoc.prems r Create have "map_of ?regs k = Some p"
        by (simp add: create_proxied_url_def)
      then show ?thesis by (intro created_by_mono snoc.IH)
    next
      case (Some entry)
      show ?thesis
      proof (cases "k = create_url_id c uuid4")
        case True
        with snoc.prems r Create Some have p: "p = entry"
          by (simp add: create_proxied_url_def update_conv')
        from Some have "open_limit entry = cd_open_limit c"
          by (auto simp: create_entry_def split: if_splits option.splits)
        with p Some have "create_entry float_add c t = Some (p\<lparr>open_limit := cd_open_limit c\<rparr>)"
          "open_limit p = 0 \<longrightarrow> cd_open_limit c = 0"
          by simp_all
        with True Create show ?thesis
          unfolding created_by_def
          by (intro exI [of _ c] exI [of _ uuid4] exI [of _ t]) simp
      next
        case False
        with snoc.prems r Create Some have "map_of ?regs k = Some p"
          by (simp add: create_proxied_url_def update_conv')
        then show ?thesis by (intro created_by_mono snoc.IH)
      qed
    qed
  next
    case (Delete k0)
    with snoc.prems r have "map_of ?regs k = Some p"
      by (auto simp: delete_proxied_url_def delete_conv' split: if_splits)
    then show ?thesis by (intro created_by_mono snoc.IH)
  next
    case (Request q now)
    with snoc.prems r
    have "map_of (snd (get_proxied_url urlmatch unquote opts now q ?regs)) k = Some p"
      by simp
    from get_proxied_url_step [OF distinct_run this]
    obtain p0 where m: "map_of ?regs k = Some p0"
      and s: "p = p0 \<or> (p = p0\<lparr>open_limit := open_limit p0 - 1\<rparr> \<and> open_limit p0 - 1 \<noteq> 0)"
      by blast
    from snoc.IH [OF m] obtain c uuid4 t where
      c: "Create c uuid4 t \<in> set ops" "create_url_id c uuid4 = k"
        "create_entry float_add c t = Some (p0\<lparr>open_limit := cd_open_limit c\<rparr>)"
        "open_limit p0 = 0 \<longrightarrow> cd_open_limit c = 0"
      unfolding created_by_def by blast
    from s c(3,4) have "create_entry float_add c t = Some (p\<lparr>open_limit := cd_open_limit c\<rparr>)"
      "open_limit p = 0 \<longrightarrow> cd_open_limit c = 0"
      by auto
    with c(1,2) show ?thesis
      unfolding created_by_def
      by (intro exI [of _ c] exI [of _ uuid4] exI [of _ t]) simp
  qed
qed

text \<open>
  An entry created with \<open>open_limit\<close> 0 is stored with it and is still in the registry
  after a request that it authorizes.
\<close>

theorem no_zero_open_limit_counterexample:
  "\<not> no_zero_open_limit
       (run (\<lambda>pat u. if pat = [] then None else Some (pat = u)) (\<lambda>s. s)
          (\<lambda>x n. if \<bar>n\<bar> < 2 ^ 1024 then Some (x + of_int n) else None)
          \<lparr>opt_url_patterns = None, opt_ssl_ciphers = None, opt_ssl_verification = None\<rparr>
          [Create \<lparr>cd_url_pattern = ''http://a/'', cd_url_id = Some ''cam'',
                    cd_ssl_verification = True, cd_ssl_ciphers = Some ''default'',
                    cd_open_limit = 0, cd_time_to_live = 60\<rparr>
             ''123e4567-e89b-42d3-a456-426614174000'' 100,
           Request [(''url'', ''http://a/'')] 110])
   \<and> run (\<lambda>pat u. if pat = [] then None else Some (pat = u)) (\<lambda>s. s)
          (\<lambda>x n. if \<bar>n\<bar> < 2 ^ 1024 then Some (x + of_int n) else None)
          \<lparr>opt_url_patterns = None, opt_ssl_ciphers = None, opt_ssl_verification = None\<rparr>
          [Create \<lparr>cd_url_pattern = ''http://a/'', cd_url_id = Some ''cam'',
                    cd_ssl_verification = True, cd_ssl_ciphers = Some ''default'',
                    cd_open_limit = 0, cd_time_to_live = 60\<rparr>
             ''123e4567-e89b-42d3-a456-426614174000'' 100,
           Request [(''url'', ''http://a/'')] 110] =
       [(''cam'', \<lparr>url_pattern = ''http://a/'', ssl_verification = True,
                   ssl_ciphers = Some ''default'', open_limit = 0, expiration = 160\<rparr>)]"
  by (simp add: no_zero_open_limit_def run_def run_from_def create_proxied_url_def
        create_entry_def create_url_id_def get_proxied_url_def is_expired_def consume_def Let_def)

text \<open>
  Claim C2, amended. In every registry the program can reach from the empty one by
  create, delete and request operations, an entry with \<open>open_limit\<close> 0 is an entry that
  a create operation stored with \<open>open_limit\<close> 0, and it is as that operation stored
  it; so when no create operation asks for \<open>open_limit\<close> 0, no entry of the registry
  has \<open>open_limit\<close> 0. A request leaves every entry that is in the registry afterwards
  either as it was or with its \<open>open_limit\<close> decremented by one to a value that is not
  0: the decrement that reaches 0 removes the entry in the same step.
\<close>

theorem open_limit_zero_only_as_created:
  assumes "regs = run urlmatch unquote float_add opts ops"
  shows
    "(\<forall>k p. map_of regs k = Some p \<and> open_limit p = 0 \<longrightarrow>
        (\<exists>c uuid4 t. Create c uuid4 t \<in> set ops \<and> create_url_id c uuid4 = k
            \<and> cd_open_limit c = 0 \<and> create_entry float_add c t = Some p))
     \<and> ((\<forall>c uuid4 t. Create c uuid4 t \<in> set ops \<longrightarrow> cd_open_limit c \<noteq> 0)
          \<longrightarrow> no_zero_open_limit regs)
     \<and> (\<forall>now q k p'.
          map_of (snd (get_proxied_url urlmatch unquote opts now q regs)) k = Some p' \<longrightarrow>
          (\<exists>p. map_of regs k = Some p
             \<and> (p' = p \<or> (p' = p\<lparr>open_limit := open_limit p - 1\<rparr> \<and> open_limit p - 1 \<noteq> 0))))"
proof -
  have d: "distinct (map fst regs)"
    unfolding assms by (rule distinct_run)
  have a: "\<exists>c uuid4 t. Create c uuid4 t \<in> set ops \<and> create_url_id c uuid4 = k
            \<and> cd_open_limit c = 0 \<and> create_entry float_add c t = Some p"
    if "map_of regs k = Some p \<and> open_limit p = 0" for k p
  proof -
    from that have "map_of (run urlmatch unquote float_add opts ops) k = Some p"
      unfolding assms by simp
    then have "created_by float_add ops k p"
      by (rule run_created_by)
    then obtain c uuid4 t where
      c: "Create c uuid4 t \<in> set ops" "create_url_id c uuid4 = k"
        "create_entry float_add c t = Some (p\<lparr>open_limit := cd_open_limit c\<rparr>)"
        "open_limit p = 0 \<longrightarrow> cd_open_limit c = 0"
      unfolding created_by_def by blast
    from that c(4) have z: "cd_open_limit c = 0" by simp
    with that have "p\<lparr>open_limit := cd_open_limit c\<rparr> = p" by simp
    with c(3) have "create_entry float_add c t = Some p" by simp
    with c(1,2) z show ?thesis by blast
  qed
  have b: "no_zero_open_limit regs"
    if n: "\<forall>c uuid4 t. Create c uuid4 t \<in> set ops \<longrightarrow> cd_open_limit c \<noteq> 0"
  proof -
    have "open_limit (snd e) \<noteq> 0" if e: "e \<in> set regs" for e
    proof
      assume zero: "open_limit (snd e) = 0"
      from d e have "map_of regs (fst e) = Some (snd e)" by simp
      with zero a [of "fst e" "snd e"] n show False by blast
    qed
    then show ?thesis by (simp add: no_zero_open_limit_def)
  qed
  have c: "\<exists>p. map_of regs k = Some p
             \<and> (p' = p \<or> (p' = p\<lparr>open_limit := open_limit p - 1\<rparr> \<and> open_limit p - 1 \<noteq> 0))"
    if "map_of (snd (get_proxied_url urlmatch unquote opts now q regs)) k = Some p'"
    for now q k p'
    using d that by (rule get_proxied_url_step)
  from a b c show ?thesis by blast
qed

theorem open_limit_zero_only_as_created_witness:
  "no_zero_open_limit
     (run (\<lambda>pat u. if pat = [] then None else Some (pat = u)) (\<lambda>s. s)
        (\<lambda>x n. if \<bar>n\<bar> < 2 ^ 1024 then Some (x + of_int n) else None)
        \<lparr>opt_url_patterns = None, opt_ssl_ciphers = None, opt_ssl_verification = None\<rparr>
        [Create \<lparr>cd_url_pattern = ''http://a/'', cd_url_id = None, cd_ssl_verification = True,
                  cd_ssl_ciphers = Some ''default'', cd_open_limit = 2, cd_time_to_live = 60\<rparr>
           ''123e4567-e89b-42d3-a456-426614174000'' 100,
         Request [(''url'', ''http://a/'')] 110,
         Request [(''url'', ''http://a/'')] 120])
   \<and> run (\<lambda>pat u. if pat = [] then None else Some (pat = u)) (\<lambda>s. s)
        (\<lambda>x n. if \<bar>n\<bar> < 2 ^ 1024 then Some (x + of_int n) else None)
        \<lparr>opt_url_patterns = None, opt_ssl_ciphers = None, opt_ssl_verification = None\<rparr>
        [Create \<lparr>cd_url_pattern = ''http://a/'', cd_url_id = None, cd_ssl_verification = True,
                  cd_ssl_ciphers = Some ''default'', cd_open_limit = 2, cd_time_to_live = 60\<rparr>
           ''123e4567-e89b-42d3-a456-426614174000'' 100,
         Request [(''url'', ''http://a/'')] 110,
         Request [(''url'', ''http://a/'')] 120] = []"
proof -
  let ?m = "\<lambda>pat u. if pat = [] then None else Some (pat = u)"
  let ?f = "\<lambda>x n. if \<bar>n\<bar> < 2 ^ 1024 then Some (x + of_int n) else None"
  let ?o = "\<lparr>opt_url_patterns = None, opt_ssl_ciphers = None, opt_ssl_verification = None\<rparr>"
  let ?c = "\<lparr>cd_url_pattern = ''http://a/'', cd_url_id = None, cd_ssl_verification = True,
                  cd_ssl_ciphers = Some ''default'', cd_open_limit = 2, cd_time_to_live = 60\<rparr>"
  let ?ops = "[Create ?c ''123e4567-e89b-42d3-a456-426614174000'' 100,
         Request [(''url'', ''http://a/'')] 110, Request [(''url'', ''http://a/'')] 120]"
  have n: "\<forall>c uuid4 t. Create c uuid4 t \<in> set ?ops \<longrightarrow> cd_open_limit c \<noteq> 0"
    by auto
  from open_limit_zero_only_as_created [OF refl, of ?m "\<lambda>s. s" ?f ?o ?ops,
      THEN conjunct2, THEN conjunct1, THEN mp, OF n]
  have one: "no_zero_open_limit (run ?m (\<lambda>s. s) ?f ?o ?ops)" .
  have two: "run ?m (\<lambda>s. s) ?f ?o ?ops = []"
    by (simp add: run_def run_from_def create_proxied_url_def
        create_entry_def create_url_id_def get_proxied_url_def is_expired_def consume_def Let_def)
  from one two show ?thesis by simp
qed

end
